theory Spec2Isabelle
  imports Complex_Main
begin

section \<open>Numbers and errors\<close>

text \<open>
  The notebooks compute with IEEE double-precision numbers. In the performance
  evaluation rounding is not modelled: a finite value is a real number and the arithmetic
  on finite values is exact. In the heat map of the noise notebook the rounding is a
  parameter of the model (see the section on rounding to double precision). What is
  modelled of IEEE arithmetic everywhere are the special values that numpy produces
  instead of raising: \<open>nan\<close>, \<open>+inf\<close> and \<open>-inf\<close>. Zero is unsigned (every zero divisor that
  occurs in the notebooks is a \<open>+0.0\<close>: a square root, a count, or \<open>1 - r\<close>).
\<close>

datatype pyfloat = Fin real | PInf | NInf | NaN

datatype error = ValueError | IndexError | ZeroDivisionError | FileNotFoundError | CvError

definition and_then :: "error + 'a \<Rightarrow> ('a \<Rightarrow> error + 'b) \<Rightarrow> error + 'b" where
  "and_then m f = (case m of Inl e \<Rightarrow> Inl e | Inr x \<Rightarrow> f x)"

fun pf_neg :: "pyfloat \<Rightarrow> pyfloat" where
  "pf_neg (Fin a) = Fin (- a)"
| "pf_neg PInf = NInf"
| "pf_neg NInf = PInf"
| "pf_neg NaN = NaN"

fun pf_add :: "pyfloat \<Rightarrow> pyfloat \<Rightarrow> pyfloat" where
  "pf_add (Fin a) (Fin b) = Fin (a + b)"
| "pf_add NaN y = NaN"
| "pf_add x NaN = NaN"
| "pf_add PInf NInf = NaN"
| "pf_add NInf PInf = NaN"
| "pf_add PInf y = PInf"
| "pf_add x PInf = PInf"
| "pf_add NInf y = NInf"
| "pf_add x NInf = NInf"

definition pf_sub :: "pyfloat \<Rightarrow> pyfloat \<Rightarrow> pyfloat" where
  "pf_sub x y = pf_add x (pf_neg y)"

text \<open>The sign of an infinite product or quotient: \<open>inf\<close> by a value \<open>b\<close>.\<close>

definition inf_signed :: "bool \<Rightarrow> pyfloat" where
  "inf_signed positive = (if positive then PInf else NInf)"

fun pf_mul :: "pyfloat \<Rightarrow> pyfloat \<Rightarrow> pyfloat" where
  "pf_mul (Fin a) (Fin b) = Fin (a * b)"
| "pf_mul NaN y = NaN"
| "pf_mul x NaN = NaN"
| "pf_mul (Fin a) PInf = (if a = 0 then NaN else inf_signed (0 < a))"
| "pf_mul (Fin a) NInf = (if a = 0 then NaN else inf_signed (a < 0))"
| "pf_mul PInf (Fin b) = (if b = 0 then NaN else inf_signed (0 < b))"
| "pf_mul NInf (Fin b) = (if b = 0 then NaN else inf_signed (b < 0))"
| "pf_mul PInf PInf = PInf"
| "pf_mul PInf NInf = NInf"
| "pf_mul NInf PInf = NInf"
| "pf_mul NInf NInf = PInf"

text \<open>
  numpy's division of doubles: a zero divisor gives \<open>nan\<close> (for \<open>0/0\<close>) or an infinity with
  the sign of the dividend, and a warning, never an exception.
\<close>

fun pf_div :: "pyfloat \<Rightarrow> pyfloat \<Rightarrow> pyfloat" where
  "pf_div (Fin a) (Fin b) =
     (if b \<noteq> 0 then Fin (a / b) else if a = 0 then NaN else inf_signed (0 < a))"
| "pf_div NaN y = NaN"
| "pf_div x NaN = NaN"
| "pf_div (Fin a) PInf = Fin 0"
| "pf_div (Fin a) NInf = Fin 0"
| "pf_div PInf (Fin b) = inf_signed (0 \<le> b)"
| "pf_div NInf (Fin b) = inf_signed (b < 0)"
| "pf_div PInf PInf = NaN"
| "pf_div PInf NInf = NaN"
| "pf_div NInf PInf = NaN"
| "pf_div NInf NInf = NaN"

text \<open>\<open>np.sqrt\<close> and \<open>np.log10\<close>: outside the domain the result is \<open>nan\<close> (or \<open>-inf\<close> at 0).\<close>

fun np_sqrt :: "pyfloat \<Rightarrow> pyfloat" where
  "np_sqrt (Fin a) = (if a < 0 then NaN else Fin (sqrt a))"
| "np_sqrt PInf = PInf"
| "np_sqrt NInf = NaN"
| "np_sqrt NaN = NaN"

fun np_log10 :: "pyfloat \<Rightarrow> pyfloat" where
  "np_log10 (Fin a) = (if a < 0 then NaN else if a = 0 then NInf else Fin (log 10 a))"
| "np_log10 PInf = PInf"
| "np_log10 NInf = NaN"
| "np_log10 NaN = NaN"

text \<open>A comparison with \<open>nan\<close> is false.\<close>

fun pf_less :: "pyfloat \<Rightarrow> pyfloat \<Rightarrow> bool" where
  "pf_less (Fin a) (Fin b) = (a < b)"
| "pf_less NaN y = False"
| "pf_less x NaN = False"
| "pf_less x NInf = False"
| "pf_less PInf y = False"
| "pf_less NInf y = True"
| "pf_less x PInf = True"

fun pf_eq :: "pyfloat \<Rightarrow> pyfloat \<Rightarrow> bool" where
  "pf_eq NaN y = False"
| "pf_eq x NaN = False"
| "pf_eq x y = (x = y)"

text \<open>
  Python's own \<open>math.sqrt\<close>, \<open>math.log10\<close> and float division raise where numpy
  returns a special value.
\<close>

fun math_sqrt :: "pyfloat \<Rightarrow> error + pyfloat" where
  "math_sqrt (Fin a) = (if a < 0 then Inl ValueError else Inr (Fin (sqrt a)))"
| "math_sqrt PInf = Inr PInf"
| "math_sqrt NInf = Inl ValueError"
| "math_sqrt NaN = Inr NaN"

fun math_log10 :: "pyfloat \<Rightarrow> error + pyfloat" where
  "math_log10 (Fin a) = (if a \<le> 0 then Inl ValueError else Inr (Fin (log 10 a)))"
| "math_log10 PInf = Inr PInf"
| "math_log10 NInf = Inl ValueError"
| "math_log10 NaN = Inr NaN"

definition py_truediv :: "pyfloat \<Rightarrow> pyfloat \<Rightarrow> error + pyfloat" where
  "py_truediv x y = (if y = Fin 0 then Inl ZeroDivisionError else Inr (pf_div x y))"

section \<open>Arrays\<close>

text \<open>
  A numpy array is its shape and its elements in row-major order. The elements of an image
  are finite numbers.
\<close>

record 'a ndarray =
  shape :: "nat list"
  data :: "'a list"

definition wf_array :: "'a ndarray \<Rightarrow> bool" where
  "wf_array a = (length (data a) = prod_list (shape a))"

definition ndim :: "'a ndarray \<Rightarrow> nat" where
  "ndim a = length (shape a)"

text \<open>
  Broadcasting of two shapes, written on the reversed shapes (last axis first): two axes
  are compatible when they are equal or one of them is 1; a missing axis counts as 1.
\<close>

fun broadcast_shapes :: "nat list \<Rightarrow> nat list \<Rightarrow> nat list option" where
  "broadcast_shapes [] ys = Some ys"
| "broadcast_shapes xs [] = Some xs"
| "broadcast_shapes (x # xs) (y # ys) =
     (if x = y \<or> y = 1 then map_option ((#) x) (broadcast_shapes xs ys)
      else if x = 1 then map_option ((#) y) (broadcast_shapes xs ys)
      else None)"

text \<open>
  \<open>unravel rs k\<close> is the multi-index (last axis first) of the flat index \<open>k\<close> in an array of
  reversed shape \<open>rs\<close>; \<open>ravel_bc rs idx\<close> is the flat index, in an operand of reversed shape
  \<open>rs\<close>, of the element that broadcasting puts at the multi-index \<open>idx\<close> of the result.
\<close>

fun unravel :: "nat list \<Rightarrow> nat \<Rightarrow> nat list" where
  "unravel [] k = []"
| "unravel (d # ds) k = (k mod d) # unravel ds (k div d)"

fun ravel_bc :: "nat list \<Rightarrow> nat list \<Rightarrow> nat" where
  "ravel_bc [] idx = 0"
| "ravel_bc (d # ds) [] = 0"
| "ravel_bc (d # ds) (i # idx) = (if d = 1 then 0 else i) + d * ravel_bc ds idx"

definition np_binop :: "('a \<Rightarrow> 'b \<Rightarrow> 'c) \<Rightarrow> 'a ndarray \<Rightarrow> 'b ndarray \<Rightarrow> error + 'c ndarray" where
  "np_binop f a b =
     (case broadcast_shapes (rev (shape a)) (rev (shape b)) of
        None \<Rightarrow> Inl ValueError
      | Some rs \<Rightarrow>
          Inr \<lparr>shape = rev rs,
               data = map (\<lambda>k. f (data a ! ravel_bc (rev (shape a)) (unravel rs k))
                                 (data b ! ravel_bc (rev (shape b)) (unravel rs k)))
                          [0..<prod_list rs]\<rparr>)"

definition np_map :: "('a \<Rightarrow> 'b) \<Rightarrow> 'a ndarray \<Rightarrow> 'b ndarray" where
  "np_map f a = \<lparr>shape = shape a, data = map f (data a)\<rparr>"

text \<open>\<open>np.mean\<close> of all elements: the sum over the count; \<open>nan\<close> for an empty array.\<close>

definition np_mean :: "real list \<Rightarrow> pyfloat" where
  "np_mean xs = pf_div (Fin (sum_list xs)) (Fin (real (length xs)))"

section \<open>Performance evaluation: PSNR\<close>

definition calculate_psnr :: "real ndarray \<Rightarrow> real ndarray \<Rightarrow> error + pyfloat" where
  "calculate_psnr img1 img2 =
     and_then (np_binop (-) img1 img2) (\<lambda>d.
       let mse = np_mean (map (\<lambda>x. x\<^sup>2) (data d)) in
       if pf_eq mse (Fin 0) then Inr PInf
       else and_then (math_sqrt mse) (\<lambda>s.
            and_then (py_truediv (Fin 255) s) (\<lambda>q.
            and_then (math_log10 q) (\<lambda>l. Inr (pf_mul (Fin 20) l)))))"

text \<open>The mean squared pixel difference of two images of one shape, as the specification words it.\<close>

definition mean_squared_difference :: "real ndarray \<Rightarrow> real ndarray \<Rightarrow> real" where
  "mean_squared_difference a b =
     (\<Sum>k<length (data a). (data a ! k - data b ! k)\<^sup>2) / real (length (data a))"

section \<open>Performance evaluation: SSIM\<close>

text \<open>\<open>np.sum\<close> and \<open>np.mean\<close> of an array whose elements may be special values.\<close>

definition pf_sum :: "pyfloat list \<Rightarrow> pyfloat" where
  "pf_sum xs = foldr pf_add xs (Fin 0)"

definition pf_mean :: "pyfloat list \<Rightarrow> pyfloat" where
  "pf_mean xs = pf_div (pf_sum xs) (Fin (real (length xs)))"

text \<open>
  The elements of an array of \<open>h\<close> rows, \<open>w\<close> columns and \<open>c\<close> values per pixel, in row-major
  order, from a function of the three indices.
\<close>

definition tabulate3 :: "nat \<Rightarrow> nat \<Rightarrow> nat \<Rightarrow> (nat \<Rightarrow> nat \<Rightarrow> nat \<Rightarrow> 'a) \<Rightarrow> 'a list" where
  "tabulate3 h w c g = map (\<lambda>k. g (k div (w * c)) (k div c mod w) (k mod c)) [0..<h * w * c]"

text \<open>
  \<open>cv.getGaussianKernel(ksize, sigma)\<close> for a positive \<open>sigma\<close>: a \<open>ksize \<times> 1\<close> column of the
  values \<open>exp (-(i - (ksize - 1)/2)\<^sup>2 / (2 sigma\<^sup>2))\<close>, scaled so that they sum to 1.
\<close>

definition gaussian_weight :: "nat \<Rightarrow> real \<Rightarrow> nat \<Rightarrow> real" where
  "gaussian_weight ksize sigma i = exp (- (real i - (real ksize - 1) / 2)\<^sup>2 / (2 * sigma\<^sup>2))"

definition getGaussianKernel :: "nat \<Rightarrow> real \<Rightarrow> real ndarray" where
  "getGaussianKernel ksize sigma =
     \<lparr>shape = [ksize, 1],
      data = map (\<lambda>i. gaussian_weight ksize sigma i /
                        sum_list (map (gaussian_weight ksize sigma) [0..<ksize]))
                 [0..<ksize]\<rparr>"

definition np_transpose :: "'a ndarray \<Rightarrow> 'a ndarray" where
  \<comment> \<open>used on a column only, whose elements keep their order\<close>
  "np_transpose a = \<lparr>shape = rev (shape a), data = data a\<rparr>"

text \<open>\<open>np.outer\<close> flattens its two arguments.\<close>

definition np_outer :: "real ndarray \<Rightarrow> real ndarray \<Rightarrow> real ndarray" where
  "np_outer a b =
     (let n = length (data a); m = length (data b)
      in \<lparr>shape = [n, m],
          data = map (\<lambda>k. data a ! (k div m) * data b ! (k mod m)) [0..<n * m]\<rparr>)"

text \<open>
  OpenCV's \<open>borderInterpolate\<close> for the default border \<open>BORDER_REFLECT_101\<close>: the index
  that stands for the position \<open>p\<close> outside an axis of length \<open>len\<close>.
\<close>

function borderInterpolate :: "int \<Rightarrow> int \<Rightarrow> int" where
  "borderInterpolate p len =
     (if 0 \<le> p \<and> p < len then p
      else if len \<le> 1 then 0
      else borderInterpolate (if p < 0 then - p - 1 + 1 else len - 1 - (p - len) - 1) len)"
  by pat_completeness auto
termination
  by (relation "measure (\<lambda>(p, len). nat (if p < 0 then 2 * (- p) + 1 else 2 * (p - len + 1)))")
     auto

declare borderInterpolate.simps [simp del]

text \<open>
  How the Python binding of OpenCV reads an array as a matrix of rows, columns and
  channels: a 2-D array is a single-channel matrix, a 3-D array with at most 512 values
  per pixel a multi-channel one, a 1-D array a column and a 0-D array a \<open>1 \<times> 1\<close> matrix.
  Anything else is refused.
\<close>

definition cv_mat_view :: "nat list \<Rightarrow> error + nat \<times> nat \<times> nat" where
  "cv_mat_view sh =
     (case sh of
        [] \<Rightarrow> Inr (1, 1, 1)
      | [n] \<Rightarrow> Inr (n, 1, 1)
      | [h, w] \<Rightarrow> Inr (h, w, 1)
      | [h, w, c] \<Rightarrow> if c \<le> 512 then Inr (h, w, c) else Inl CvError
      | _ \<Rightarrow> Inl CvError)"

text \<open>
  \<open>cv.filter2D(src, -1, kernel)\<close> with the default anchor (the kernel's centre) and the
  default border: the correlation
  \<open>dst(y, x) = \<Sum> a b. kernel(a, b) * src(y + a - kh div 2, x + b - kw div 2)\<close>,
  on every channel by itself. An empty source is refused. The result of a single-channel
  source is a 2-D array. The kernel is a 2-D array (the notebook passes the
  \<open>11 \<times> 11\<close> window).
\<close>

definition filter2D :: "real ndarray \<Rightarrow> real ndarray \<Rightarrow> error + real ndarray" where
  "filter2D src kern =
     and_then (cv_mat_view (shape src)) (\<lambda>(h, w, c).
       case shape kern of
         [kh, kw] \<Rightarrow>
           if h * w * c = 0 \<or> kh * kw = 0 then Inl CvError
           else Inr \<lparr>shape = (if c = 1 then [h, w] else [h, w, c]),
                     data = tabulate3 h w c (\<lambda>y x t.
                       sum_list (map (\<lambda>a.
                         sum_list (map (\<lambda>b.
                           data kern ! (a * kw + b) *
                           data src !
                             ((nat (borderInterpolate (int y + int a - int (kh div 2)) (int h)) * w
                               + nat (borderInterpolate (int x + int b - int (kw div 2)) (int w))) * c
                              + t))
                         [0..<kw]))
                       [0..<kh]))\<rparr>
       | _ \<Rightarrow> Inl CvError)"

text \<open>
  The slice \<open>[5:-5, 5:-5]\<close> of an array with at least two axes: rows and columns 5 to
  \<open>n - 5\<close> (none when \<open>n \<le> 10\<close>), every further axis whole.
\<close>

definition slice_5 :: "'a ndarray \<Rightarrow> error + 'a ndarray" where
  "slice_5 a =
     (case shape a of
        h # w # rest \<Rightarrow>
          let c = prod_list rest
          in Inr \<lparr>shape = (h - 10) # (w - 10) # rest,
                  data = tabulate3 (h - 10) (w - 10) c
                           (\<lambda>i j t. data a ! (((i + 5) * w + (j + 5)) * c + t))\<rparr>
      | _ \<Rightarrow> Inl IndexError)"

definition filter_valid :: "real ndarray \<Rightarrow> real ndarray \<Rightarrow> error + real ndarray" where
  \<comment> \<open>\<open>cv.filter2D(img, -1, window)[5:-5, 5:-5]\<close>\<close>
  "filter_valid img window = and_then (filter2D img window) slice_5"

definition ssim :: "real ndarray \<Rightarrow> real ndarray \<Rightarrow> error + pyfloat" where
  "ssim img1 img2 =
     (let C1 = (0.01 * 255)\<^sup>2;
          C2 = (0.03 * 255)\<^sup>2;
          kernel = getGaussianKernel 11 1.5;
          window = np_outer kernel (np_transpose kernel)
      in
      and_then (filter_valid img1 window) (\<lambda>mu1.
      and_then (filter_valid img2 window) (\<lambda>mu2.
      let mu1_sq = np_map (\<lambda>x. x\<^sup>2) mu1;
          mu2_sq = np_map (\<lambda>x. x\<^sup>2) mu2
      in
      and_then (np_binop (*) mu1 mu2) (\<lambda>mu1_mu2.
      and_then (filter_valid (np_map (\<lambda>x. x\<^sup>2) img1) window) (\<lambda>f1.
      and_then (np_binop (-) f1 mu1_sq) (\<lambda>sigma1_sq.
      and_then (filter_valid (np_map (\<lambda>x. x\<^sup>2) img2) window) (\<lambda>f2.
      and_then (np_binop (-) f2 mu2_sq) (\<lambda>sigma2_sq.
      and_then (np_binop (*) img1 img2) (\<lambda>img12.
      and_then (filter_valid img12 window) (\<lambda>f12.
      and_then (np_binop (-) f12 mu1_mu2) (\<lambda>sigma12.
      and_then (np_binop (*) (np_map (\<lambda>x. 2 * x + C1) mu1_mu2)
                             (np_map (\<lambda>x. 2 * x + C2) sigma12)) (\<lambda>numerator.
      and_then (np_binop (+) mu1_sq mu2_sq) (\<lambda>mu_sum.
      and_then (np_binop (+) sigma1_sq sigma2_sq) (\<lambda>sigma_sum.
      and_then (np_binop (*) (np_map (\<lambda>x. x + C1) mu_sum)
                             (np_map (\<lambda>x. x + C2) sigma_sum)) (\<lambda>denominator.
      and_then (np_binop (\<lambda>x y. pf_div (Fin x) (Fin y)) numerator denominator) (\<lambda>ssim_map.
      Inr (pf_mean (data ssim_map))))))))))))))))))"

text \<open>The loop \<open>for i in range(3): ssims.append(ssim(img1, img2))\<close>, by the turns left.\<close>

fun ssim_loop :: "nat \<Rightarrow> real ndarray \<Rightarrow> real ndarray \<Rightarrow> pyfloat list \<Rightarrow> error + pyfloat list" where
  "ssim_loop 0 img1 img2 ssims = Inr ssims"
| "ssim_loop (Suc n) img1 img2 ssims =
     and_then (ssim img1 img2) (\<lambda>s. ssim_loop n img1 img2 (ssims @ [s]))"

definition np_squeeze :: "'a ndarray \<Rightarrow> 'a ndarray" where
  "np_squeeze a = \<lparr>shape = filter (\<lambda>d. d \<noteq> 1) (shape a), data = data a\<rparr>"

text \<open>
  The result of \<open>calculate_ssim\<close> is \<open>Some\<close> number, or \<open>None\<close> where the Python function
  ends without a \<open>return\<close>.
\<close>

definition calculate_ssim :: "real ndarray \<Rightarrow> real ndarray \<Rightarrow> error + pyfloat option" where
  "calculate_ssim img1 img2 =
     (if \<not> shape img1 = shape img2 then Inl ValueError
      else if ndim img1 = 2 then and_then (ssim img1 img2) (\<lambda>s. Inr (Some s))
      else if ndim img1 = 3 then
        (if shape img1 ! 2 = 3 then
           and_then (ssim_loop 3 img1 img2 []) (\<lambda>ssims. Inr (Some (pf_mean ssims)))
         else if shape img1 ! 2 = 1 then
           and_then (ssim (np_squeeze img1) (np_squeeze img2)) (\<lambda>s. Inr (Some s))
         else Inr None)
      else Inl ValueError)"

section \<open>Performance evaluation: cross-correlation SNR\<close>

text \<open>
  The file system maps the path of an image file to its pixel array; \<open>Image.open\<close> raises
  for a path that is not there. What a \<open>print\<close> call writes is kept as the values printed.
\<close>

datatype printed = PrintCorrelation string string pyfloat | PrintSummary string pyfloat pyfloat

definition Image_open :: "(string \<rightharpoonup> real ndarray) \<Rightarrow> string \<Rightarrow> error + real ndarray" where
  "Image_open fs path = (case fs path of None \<Rightarrow> Inl FileNotFoundError | Some img \<Rightarrow> Inr img)"

definition snr_db :: "pyfloat \<Rightarrow> pyfloat" where
  \<comment> \<open>the returned expression \<open>10 * np.log10(r / (1 - r))\<close>\<close>
  "snr_db r = pf_mul (Fin 10) (np_log10 (pf_div r (pf_sub (Fin 1) r)))"

definition calculate_snr ::
  "(string \<rightharpoonup> real ndarray) \<Rightarrow> string \<Rightarrow> string \<Rightarrow> error + printed list \<times> pyfloat" where
  "calculate_snr fs img1_1 img2_1 =
     and_then (Image_open fs img1_1) (\<lambda>img1.
     and_then (Image_open fs img2_1) (\<lambda>img2.
       let mean1 = np_mean (data img1);
           mean2 = np_mean (data img2);
           centred1 = np_map (\<lambda>x. pf_sub (Fin x) mean1) img1;
           centred2 = np_map (\<lambda>x. pf_sub (Fin x) mean2) img2
       in
       and_then (np_binop pf_mul centred1 centred2) (\<lambda>product.
         let r = pf_div (pf_mean (data product))
                   (np_sqrt (pf_mul (pf_mean (map (\<lambda>x. pf_mul x x) (data centred1)))
                                    (pf_mean (map (\<lambda>x. pf_mul x x) (data centred2)))));
             out = (if pf_less r (Fin 0) then [PrintCorrelation img1_1 img2_1 r] else [])
         in Inr (out, snr_db r))))"

text \<open>
  The Pearson correlation of two pixel lists as the specification words it: the mean of
  the products of the mean-centred intensities over the root of the product of their mean
  squares.
\<close>

definition list_mean :: "real list \<Rightarrow> real" where
  "list_mean xs = sum_list xs / real (length xs)"

definition pearson :: "real list \<Rightarrow> real list \<Rightarrow> real" where
  "pearson xs ys =
     list_mean (map2 (\<lambda>x y. (x - list_mean xs) * (y - list_mean ys)) xs ys) /
     sqrt (list_mean (map (\<lambda>x. (x - list_mean xs)\<^sup>2) xs) *
           list_mean (map (\<lambda>y. (y - list_mean ys)\<^sup>2) ys))"

section \<open>Performance evaluation: the SNR of a real dataset\<close>

definition list_get :: "'a list \<Rightarrow> nat \<Rightarrow> error + 'a" where
  "list_get xs i = (if i < length xs then Inr (xs ! i) else Inl IndexError)"

definition array_set :: "'a list \<Rightarrow> nat \<Rightarrow> 'a \<Rightarrow> error + 'a list" where
  "array_set xs i v = (if i < length xs then Inr (xs[i := v]) else Inl IndexError)"

text \<open>\<open>np.std\<close>: the root of the mean squared deviation from the mean.\<close>

definition pf_std :: "pyfloat list \<Rightarrow> pyfloat" where
  "pf_std xs =
     np_sqrt (pf_mean (map (\<lambda>x. let d = pf_sub x (pf_mean xs) in pf_mul d d) xs))"

text \<open>
  The format \<open>%.6f\<close>: the sign, the integer part and six decimals of the value rounded to
  the nearest millionth, a tie going to the even neighbour.
\<close>

fun decimal :: "nat \<Rightarrow> string" where
  "decimal n =
     (if n < 10 then [''0123456789'' ! n]
      else decimal (n div 10) @ [''0123456789'' ! (n mod 10)])"

declare decimal.simps [simp del]

definition round_half_even :: "real \<Rightarrow> nat" where
  "round_half_even y =
     (let f = nat \<lfloor>y\<rfloor>
      in if y - real f < 1 / 2 then f
         else if 1 / 2 < y - real f then f + 1
         else if even f then f else f + 1)"

definition format_6f :: "pyfloat \<Rightarrow> string" where
  "format_6f v =
     (case v of
        Fin x \<Rightarrow>
          let q = round_half_even (\<bar>x\<bar> * 10 ^ 6);
              frac = decimal (q mod 10 ^ 6)
          in (if x < 0 then ''-'' else []) @ decimal (q div 10 ^ 6) @ ''.'' @
             replicate (6 - length frac) (CHR ''0'') @ frac
      | PInf \<Rightarrow> ''inf''
      | NInf \<Rightarrow> ''-inf''
      | NaN \<Rightarrow> ''nan'')"

text \<open>\<open>np.savetxt\<close> of a 1-D array: one formatted value per line.\<close>

definition savetxt :: "(pyfloat \<Rightarrow> string) \<Rightarrow> pyfloat list \<Rightarrow> string" where
  "savetxt fmt xs = concat (map (\<lambda>v. fmt v @ [CHR 0x0A]) xs)"

definition os_path_join :: "string \<Rightarrow> string \<Rightarrow> string" where
  \<comment> \<open>the second part is a relative file name\<close>
  "os_path_join a b = (if a = [] \<or> last a = CHR ''/'' then a @ b else a @ ''/'' @ b)"

text \<open>
  The loop over the adjacent pairs, on the indices still to visit. The state is the two
  result arrays and what has been printed.
\<close>

fun snr_loop ::
  "(string \<rightharpoonup> real ndarray) \<Rightarrow> string list \<Rightarrow> string list \<Rightarrow> nat list \<Rightarrow>
   pyfloat list \<times> pyfloat list \<times> printed list \<Rightarrow>
   error + pyfloat list \<times> pyfloat list \<times> printed list" where
  "snr_loop fs noisy_list denoised_list [] st = Inr st"
| "snr_loop fs noisy_list denoised_list (i # rest) (snr_noisy, snr_denoised, out) =
     and_then (list_get noisy_list i) (\<lambda>n0.
     and_then (list_get noisy_list (i + 1)) (\<lambda>n1.
     and_then (calculate_snr fs n0 n1) (\<lambda>(out1, v1).
     and_then (array_set snr_noisy (i + 2) v1) (\<lambda>snr_noisy'.
     and_then (list_get denoised_list i) (\<lambda>d0.
     and_then (list_get denoised_list (i + 1)) (\<lambda>d1.
     and_then (calculate_snr fs d0 d1) (\<lambda>(out2, v2).
     and_then (array_set snr_denoised (i + 2) v2) (\<lambda>snr_denoised'.
     snr_loop fs noisy_list denoised_list rest
       (snr_noisy', snr_denoised', out @ out1 @ out2)))))))))"

text \<open>
  The evaluation cell: the files it writes (path and text, in order) and what it prints.
  The output directory is taken to exist.
\<close>

definition snr_evaluation ::
  "(string \<rightharpoonup> real ndarray) \<Rightarrow> string \<Rightarrow> string list \<Rightarrow> string list \<Rightarrow>
   error + (string \<times> string) list \<times> printed list" where
  "snr_evaluation fs snr_dir noisy_list denoised_list =
     (let num_img = length noisy_list;
          snr_noisy = replicate (num_img + 1) (Fin 0);
          snr_denoised = replicate (num_img + 1) (Fin 0)
      in
      and_then (snr_loop fs noisy_list denoised_list [0..<num_img - 1]
                  (snr_noisy, snr_denoised, [])) (\<lambda>(snr_noisy, snr_denoised, out).
      and_then (array_set snr_noisy 0 (pf_mean (drop 2 snr_noisy))) (\<lambda>snr_noisy.
      and_then (array_set snr_noisy 1 (pf_std (drop 2 snr_noisy))) (\<lambda>snr_noisy.
      and_then (array_set snr_denoised 0 (pf_mean (drop 2 snr_denoised))) (\<lambda>snr_denoised.
      and_then (array_set snr_denoised 1 (pf_std (drop 2 snr_denoised))) (\<lambda>snr_denoised.
      Inr ([(os_path_join snr_dir ''snr_noisy.txt'', savetxt format_6f snr_noisy),
            (os_path_join snr_dir ''snr_denoised.txt'', savetxt format_6f snr_denoised)],
           out @ [PrintSummary ''mean SNR of noisy images = '' (snr_noisy ! 0) (snr_noisy ! 1),
                  PrintSummary ''mean SNR of denoised images = ''
                    (snr_denoised ! 0) (snr_denoised ! 1)])))))))"

section \<open>Rounding to double precision\<close>

text \<open>
  The heat map of the noise notebook is modelled with the rounding of its arithmetic as a
  parameter \<open>rnd\<close>, which gives the value stored for the exact real result of one
  operation. With \<open>rnd = double\<close> the operations are those of IEEE double precision, as
  numpy performs them on an array of doubles (or of integers, which it converts): the
  nearest number with a significand of 53 bits, a tie going to the even significand,
  with the subnormal numbers below \<open>2 powr - 1022\<close> and an infinity from \<open>2 powr 1024\<close> on.
  With \<open>rnd = Fin\<close> the arithmetic is exact.
\<close>

definition double :: "real \<Rightarrow> pyfloat" where
  "double x =
     (if x = 0 then Fin 0
      else
        let e = max \<lfloor>log 2 \<bar>x\<bar>\<rfloor> (- 1022);
            ulp = 2 powr (real_of_int e - 52);
            r = sgn x * real (round_half_even (\<bar>x\<bar> / ulp)) * ulp
        in if 2 powr 1024 \<le> \<bar>r\<bar> then inf_signed (0 < x) else Fin r)"

definition rounded :: "(real \<Rightarrow> pyfloat) \<Rightarrow> pyfloat \<Rightarrow> pyfloat" where
  "rounded rnd v = (case v of Fin a \<Rightarrow> rnd a | PInf \<Rightarrow> PInf | NInf \<Rightarrow> NInf | NaN \<Rightarrow> NaN)"

definition r_add :: "(real \<Rightarrow> pyfloat) \<Rightarrow> pyfloat \<Rightarrow> pyfloat \<Rightarrow> pyfloat" where
  "r_add rnd x y = rounded rnd (pf_add x y)"

definition r_sub :: "(real \<Rightarrow> pyfloat) \<Rightarrow> pyfloat \<Rightarrow> pyfloat \<Rightarrow> pyfloat" where
  "r_sub rnd x y = rounded rnd (pf_sub x y)"

definition r_mul :: "(real \<Rightarrow> pyfloat) \<Rightarrow> pyfloat \<Rightarrow> pyfloat \<Rightarrow> pyfloat" where
  "r_mul rnd x y = rounded rnd (pf_mul x y)"

definition r_div :: "(real \<Rightarrow> pyfloat) \<Rightarrow> pyfloat \<Rightarrow> pyfloat \<Rightarrow> pyfloat" where
  "r_div rnd x y = rounded rnd (pf_div x y)"

definition r_sqrt :: "(real \<Rightarrow> pyfloat) \<Rightarrow> pyfloat \<Rightarrow> pyfloat" where
  "r_sqrt rnd x = rounded rnd (np_sqrt x)"

text \<open>
  The order in which numpy adds the elements of a contiguous array
  (\<open>pairwise_sum\<close>): fewer than 8 elements one after the other from zero; up to 128
  elements in eight running sums over the blocks of eight, which are then added in
  pairs, and the elements left over after the last whole block one after the other; a
  longer array in two parts, the first of \<open>n div 2\<close> elements rounded down to a multiple
  of 8.
\<close>

fun add_blocks :: "(real \<Rightarrow> pyfloat) \<Rightarrow> pyfloat list \<Rightarrow> pyfloat list \<Rightarrow> pyfloat list" where
  "add_blocks rnd r a =
     (if length a < 8 then r
      else add_blocks rnd (map2 (r_add rnd) r (take 8 a)) (drop 8 a))"

declare add_blocks.simps [simp del]

function pairwise_sum :: "(real \<Rightarrow> pyfloat) \<Rightarrow> pyfloat list \<Rightarrow> pyfloat" where
  "pairwise_sum rnd a =
     (let n = length a in
      if n < 8 then foldl (r_add rnd) (Fin 0) a
      else if n \<le> 128 then
        (let r = add_blocks rnd (take 8 a) (take (n - n mod 8 - 8) (drop 8 a));
             res = r_add rnd
                     (r_add rnd (r_add rnd (r ! 0) (r ! 1)) (r_add rnd (r ! 2) (r ! 3)))
                     (r_add rnd (r_add rnd (r ! 4) (r ! 5)) (r_add rnd (r ! 6) (r ! 7)))
         in foldl (r_add rnd) res (drop (n - n mod 8) a))
      else
        (let n2 = n div 2 - (n div 2) mod 8
         in r_add rnd (pairwise_sum rnd (take n2 a)) (pairwise_sum rnd (drop n2 a))))"
  by pat_completeness auto
termination
  by (relation "measure (\<lambda>(rnd, a). length a)") auto

declare pairwise_sum.simps [simp del]

text \<open>
  \<open>np.sum\<close> adds the pairwise sum to its initial value 0, and \<open>np.mean\<close> divides the sum by
  the number of elements.
\<close>

definition r_sum :: "(real \<Rightarrow> pyfloat) \<Rightarrow> pyfloat list \<Rightarrow> pyfloat" where
  "r_sum rnd a = r_add rnd (Fin 0) (pairwise_sum rnd a)"

definition r_mean :: "(real \<Rightarrow> pyfloat) \<Rightarrow> real list \<Rightarrow> pyfloat" where
  "r_mean rnd x = r_div rnd (r_sum rnd (map Fin x)) (Fin (real (length x)))"

section \<open>Noise statistics estimation\<close>

text \<open>
  The image of this notebook is a 2-D array (one image read unchanged and normalised):
  its rows, its columns and its pixels in row-major order.
\<close>

record image2d =
  rows :: nat
  cols :: nat
  pixels :: "real list"

definition wf_image :: "image2d \<Rightarrow> bool" where
  "wf_image img = (length (pixels img) = rows img * cols img)"

text \<open>
  \<open>np.roll(a, shift=(dx, dy), axis=(0, 1))\<close>: the element at \<open>(i, j)\<close> of the result is the
  element at \<open>((i - dx) mod rows, (j - dy) mod cols)\<close> of \<open>a\<close>.
\<close>

definition np_roll :: "image2d \<Rightarrow> int \<Rightarrow> int \<Rightarrow> image2d" where
  "np_roll a dx dy =
     \<lparr>rows = rows a, cols = cols a,
      pixels = map (\<lambda>k. pixels a !
                      (nat ((int (k div cols a) - dx) mod int (rows a)) * cols a
                       + nat ((int (k mod cols a) - dy) mod int (cols a))))
                   [0..<rows a * cols a]\<rparr>"

definition column :: "image2d \<Rightarrow> nat \<Rightarrow> real list" where
  \<comment> \<open>\<open>a[:, col]\<close>\<close>
  "column a col = map (\<lambda>i. pixels a ! (i * cols a + col)) [0..<rows a]"

definition flatten :: "image2d \<Rightarrow> real list" where
  "flatten a = pixels a"

definition pf_clip :: "real \<Rightarrow> real \<Rightarrow> pyfloat \<Rightarrow> pyfloat" where
  "pf_clip lo hi x =
     (if pf_less x (Fin lo) then Fin lo else if pf_less (Fin hi) x then Fin hi else x)"

text \<open>
  \<open>np.corrcoef(x, y)[0, 1]\<close> for two 1-D arrays of one length: the covariance matrix of the
  two variables (normalised by \<open>N - 1\<close>, or by 0 when that is not positive), its entry
  \<open>(0, 1)\<close> divided by the two standard deviations in turn, clipped to \<open>[-1, 1]\<close>.
\<close>

definition corrcoef_01 :: "real list \<Rightarrow> real list \<Rightarrow> pyfloat" where
  "corrcoef_01 x y =
     (let xc = map (\<lambda>v. pf_sub (Fin v) (np_mean x)) x;
          yc = map (\<lambda>v. pf_sub (Fin v) (np_mean y)) y;
          fact = max (real (length x) - 1) 0;
          scale = pf_div (Fin 1) (Fin fact);
          c00 = pf_mul (pf_sum (map2 pf_mul xc xc)) scale;
          c01 = pf_mul (pf_sum (map2 pf_mul xc yc)) scale;
          c11 = pf_mul (pf_sum (map2 pf_mul yc yc)) scale
      in pf_clip (- 1) 1 (pf_div (pf_div c01 (np_sqrt c00)) (np_sqrt c11)))"

definition compute_correlation_for_distance :: "image2d \<Rightarrow> int \<Rightarrow> pyfloat" where
  "compute_correlation_for_distance noise_img distance =
     pf_mean
       (foldl (\<lambda>correlations dx.
          foldl (\<lambda>correlations dy.
            if dx = 0 \<and> dy = 0 then correlations @ [Fin 1]
            else
              let shifted = np_roll noise_img dx dy;
                  corr_values =
                    map (\<lambda>col. corrcoef_01 (column noise_img col) (column shifted col))
                        [0..<cols noise_img]
              in correlations @ [pf_mean corr_values])
            correlations [0..distance])
          [] [0..distance])"

definition relative_distance_correlation :: "image2d \<Rightarrow> int \<Rightarrow> pyfloat list" where
  "relative_distance_correlation image_tensor max_distance =
     foldl (\<lambda>correlations distance.
              correlations @ [compute_correlation_for_distance image_tensor distance])
           [] [1..max_distance]"

text \<open>
  The inner function \<open>corr\<close> of the heat map. Its two arguments are the flattened image and
  the flattened shifted image, of one length, so that the product of the two arrays is
  the list of the pairwise products. Every operation rounds its result with \<open>rnd\<close>.
\<close>

definition corr :: "(real \<Rightarrow> pyfloat) \<Rightarrow> real list \<Rightarrow> real list \<Rightarrow> pyfloat" where
  "corr rnd x y =
     (let xc = map (\<lambda>v. r_sub rnd (Fin v) (r_mean rnd x)) x;
          yc = map (\<lambda>v. r_sub rnd (Fin v) (r_mean rnd y)) y
      in r_div rnd (r_sum rnd (map2 (r_mul rnd) xc yc))
                   (r_mul rnd (r_sqrt rnd (r_sum rnd (map (\<lambda>v. r_mul rnd v v) xc)))
                              (r_sqrt rnd (r_sum rnd (map (\<lambda>v. r_mul rnd v v) yc)))))"

text \<open>
  The heat map is a square array of side \<open>2 * max_distance + 1\<close>, written at
  \<open>[dx + max_distance, dy + max_distance]\<close>; both indices are between 0 and
  \<open>2 * max_distance\<close> by the bounds of the loops. \<open>np.zeros\<close> refuses a negative side.
\<close>

definition spatial_correlation_heatmap ::
  "(real \<Rightarrow> pyfloat) \<Rightarrow> image2d \<Rightarrow> int \<Rightarrow> error + pyfloat ndarray" where
  "spatial_correlation_heatmap rnd image_tensor max_distance =
     (let size = 2 * max_distance + 1 in
      if size < 0 then Inl ValueError
      else
        Inr \<lparr>shape = [nat size, nat size],
             data =
               foldl (\<lambda>heatmap dx.
                 foldl (\<lambda>heatmap dy.
                   if dx = 0 \<and> dy = 0 then
                     heatmap[nat (dx + max_distance) * nat size + nat (dy + max_distance) := Fin 1]
                   else
                     let shifted = np_roll image_tensor dx dy;
                         correlation = corr rnd (flatten image_tensor) (flatten shifted)
                     in heatmap[nat (dx + max_distance) * nat size + nat (dy + max_distance)
                                := correlation])
                   heatmap [- max_distance..max_distance])
                 (replicate (nat size * nat size) (Fin 0))
                 [- max_distance..max_distance]\<rparr>)"

text \<open>
  The specification's wording of the distance correlation: for the offset \<open>(dx, dy)\<close> the
  average over the columns of the correlation between the image and its cyclic shift,
  the offset \<open>(0, 0)\<close> counting as 1; for the distance \<open>d\<close> the mean over the offsets
  \<open>0 \<le> dx \<le> d\<close>, \<open>0 \<le> dy \<le> d\<close>.
\<close>

definition offset_correlation :: "image2d \<Rightarrow> int \<Rightarrow> int \<Rightarrow> pyfloat" where
  "offset_correlation img dx dy =
     (if dx = 0 \<and> dy = 0 then Fin 1
      else pf_mean (map (\<lambda>col. corrcoef_01 (column img col) (column (np_roll img dx dy) col))
                        [0..<cols img]))"

definition distance_correlation :: "image2d \<Rightarrow> int \<Rightarrow> pyfloat" where
  "distance_correlation img d =
     pf_mean (concat (map (\<lambda>dx. map (\<lambda>dy. offset_correlation img dx dy) [0..d]) [0..d]))"

definition heatmap_at :: "pyfloat ndarray \<Rightarrow> int \<Rightarrow> int \<Rightarrow> pyfloat" where
  \<comment> \<open>\<open>heatmap[i, j]\<close> for indices within the array\<close>
  "heatmap_at h i j = data h ! (nat i * (shape h ! 1) + nat j)"

text \<open>A pixel list is constant when every pixel has the value of the first.\<close>

definition is_constant :: "real list \<Rightarrow> bool" where
  "is_constant xs = list_all (\<lambda>v. v = hd xs) xs"

text \<open>
  The value that the loops of the heat map store for the offset \<open>(dx, dy)\<close>.
\<close>

definition heat_value :: "(real \<Rightarrow> pyfloat) \<Rightarrow> image2d \<Rightarrow> int \<Rightarrow> int \<Rightarrow> pyfloat" where
  "heat_value rnd img dx dy =
     (if dx = 0 \<and> dy = 0 then Fin 1
      else corr rnd (flatten img) (flatten (np_roll img dx dy)))"

text \<open>
  The sums that \<open>corr\<close> and \<open>np.corrcoef\<close> are made of: the sum of the products of the
  deviations from the two means, and the sum of the squared deviations from the mean.
  \<open>roll_source\<close> is the flat index of the pixel that \<open>np_roll\<close> moves to the flat index
  \<open>k\<close>.
\<close>

definition cov_sum :: "real list \<Rightarrow> real list \<Rightarrow> real" where
  "cov_sum x y = sum_list (map2 (\<lambda>a b. (a - list_mean x) * (b - list_mean y)) x y)"

definition dev_sum :: "real list \<Rightarrow> real" where
  "dev_sum x = sum_list (map (\<lambda>a. (a - list_mean x)\<^sup>2) x)"

definition roll_source :: "nat \<Rightarrow> nat \<Rightarrow> int \<Rightarrow> int \<Rightarrow> nat \<Rightarrow> nat" where
  "roll_source h w dx dy k =
     nat ((int (k div w) - dx) mod int h) * w + nat ((int (k mod w) - dy) mod int w)"

text \<open>
  The value of the filtered and trimmed image at row \<open>i\<close> and column \<open>j\<close>, for a
  single-channel image of \<open>w\<close> columns with the pixels \<open>d\<close>: the sum of the \<open>11 \<times> 11\<close>
  pixels from \<open>(i, j)\<close> on, weighted by the window. \<open>grid\<close> is a 2-D array given by a function
  of the flat index.
\<close>

definition window_weight :: "nat \<Rightarrow> real" where
  "window_weight a = data (getGaussianKernel 11 1.5) ! a"

definition window_sum :: "nat \<Rightarrow> real list \<Rightarrow> nat \<Rightarrow> nat \<Rightarrow> real" where
  "window_sum w d i j =
     (\<Sum>a<11. \<Sum>b<11. window_weight a * window_weight b * d ! ((i + a) * w + (j + b)))"

definition grid :: "nat \<Rightarrow> nat \<Rightarrow> (nat \<Rightarrow> 'a) \<Rightarrow> 'a ndarray" where
  "grid h w g = \<lparr>shape = [h, w], data = map g [0..<h * w]\<rparr>"

definition ssim_window :: "real ndarray" where
  \<comment> \<open>the \<open>11 \<times> 11\<close> window that \<open>ssim\<close> builds\<close>
  "ssim_window = np_outer (getGaussianKernel 11 1.5) (np_transpose (getGaussianKernel 11 1.5))"

section \<open>Helper lemmas\<close>

lemma and_then_Inr [simp]: "and_then (Inr x) f = f x"
  by (simp add: and_then_def)

lemma and_then_Inl [simp]: "and_then (Inl e) f = Inl e"
  by (simp add: and_then_def)

lemma broadcast_shapes_same: "broadcast_shapes rs rs = Some rs"
  by (induction rs) auto

lemma ravel_unravel: "k < prod_list rs \<Longrightarrow> ravel_bc rs (unravel rs k) = k"
proof (induction rs arbitrary: k)
  case Nil
  then show ?case by simp
next
  case (Cons d ds)
  have dpos: "0 < d" using Cons.prems by (cases "d = 0") auto
  have "k div d < prod_list ds"
    using Cons.prems dpos by (simp add: less_mult_imp_div_less mult.commute)
  then have "ravel_bc ds (unravel ds (k div d)) = k div d"
    by (rule Cons.IH)
  then show ?case by (cases "d = 1") simp_all
qed

lemma map_nth_zip_upt:
  "length xs = n \<Longrightarrow> length ys = n \<Longrightarrow>
     map (\<lambda>k. f (xs ! k) (ys ! k)) [0..<n] = map2 f xs ys"
  by (rule nth_equalityI) simp_all

lemma np_binop_same_shape:
  assumes "shape a = shape b" "wf_array a" "wf_array b"
  shows "np_binop f a b = Inr \<lparr>shape = shape a, data = map2 f (data a) (data b)\<rparr>"
proof -
  let ?rs = "rev (shape b)"
  have n: "prod_list ?rs = length (data a)" "prod_list ?rs = length (data b)"
    using assms by (simp_all add: wf_array_def)
  have "map (\<lambda>k. f (data a ! ravel_bc ?rs (unravel ?rs k)) (data b ! ravel_bc ?rs (unravel ?rs k)))
            [0..<prod_list ?rs]
        = map (\<lambda>k. f (data a ! k) (data b ! k)) [0..<prod_list ?rs]"
    by (rule map_cong) (simp_all add: ravel_unravel)
  also have "\<dots> = map2 f (data a) (data b)"
    using n by (intro map_nth_zip_upt) simp_all
  finally show ?thesis
    using assms(1) by (simp add: np_binop_def broadcast_shapes_same)
qed

section \<open>Properties of the PSNR\<close>

lemma sum_list_sq_diff:
  fixes xs ys :: "real list"
  assumes "length xs = length ys"
  shows "sum_list (map (\<lambda>x. x\<^sup>2) (map2 (-) xs ys)) = (\<Sum>k<length xs. (xs ! k - ys ! k)\<^sup>2)" (is "?l = ?r")
proof -
  have "?l = (\<Sum>k = 0..<length xs. (map (\<lambda>x. x\<^sup>2) (map2 (-) xs ys)) ! k)"
    using assms by (simp add: sum_list_sum_nth)
  also have "\<dots> = (\<Sum>k = 0..<length xs. (xs ! k - ys ! k)\<^sup>2)"
    using assms by (intro sum.cong) simp_all
  finally show ?thesis by (simp add: atLeast0LessThan)
qed

lemma sum_sq_diff_zero_iff:
  fixes xs ys :: "real list"
  assumes "length xs = length ys"
  shows "(\<Sum>k<length xs. (xs ! k - ys ! k)\<^sup>2) = 0 \<longleftrightarrow> xs = ys"
proof -
  have "(\<Sum>k<length xs. (xs ! k - ys ! k)\<^sup>2) = 0 \<longleftrightarrow> (\<forall>k\<in>{..<length xs}. (xs ! k - ys ! k)\<^sup>2 = 0)"
    by (intro sum_nonneg_eq_0_iff) simp_all
  also have "\<dots> \<longleftrightarrow> (\<forall>k<length xs. xs ! k = ys ! k)" by auto
  also have "\<dots> \<longleftrightarrow> xs = ys" using assms by (auto intro: nth_equalityI)
  finally show ?thesis .
qed

text \<open>
  Claim C5. For two images of one shape with at least one pixel, \<open>calculate_psnr\<close> returns
  \<open>20 log10 (255 / sqrt MSE)\<close>, where MSE is the mean squared pixel difference, and returns
  \<open>+inf\<close> when the two images are identical, which is exactly when MSE is 0. The intensity
  range plays no part in the result.
\<close>

theorem calculate_psnr_formula:
  assumes sh: "shape a = shape b" and wf: "wf_array a" "wf_array b" and ne: "data a \<noteq> []"
  shows "calculate_psnr a b =
           Inr (if a = b then PInf
                else Fin (20 * log 10 (255 / sqrt (mean_squared_difference a b))))"
proof -
  let ?n = "length (data a)"
  let ?S = "\<Sum>k<?n. (data a ! k - data b ! k)\<^sup>2"
  have len: "length (data a) = length (data b)"
    using sh wf by (simp add: wf_array_def)
  have npos: "0 < real ?n" using ne by simp
  have bin: "np_binop (-) a b = Inr \<lparr>shape = shape a, data = map2 (-) (data a) (data b)\<rparr>"
    using sh wf by (rule np_binop_same_shape)
  have mse: "np_mean (map (\<lambda>x. x\<^sup>2) (map2 (-) (data a) (data b))) = Fin (mean_squared_difference a b)"
    unfolding np_mean_def sum_list_sq_diff [OF len]
    using npos len by (simp add: mean_squared_difference_def)
  have S0: "?S = 0 \<longleftrightarrow> data a = data b"
    using len by (rule sum_sq_diff_zero_iff)
  have eq: "a = b \<longleftrightarrow> data a = data b"
    using sh by (cases a, cases b) simp
  have m0: "mean_squared_difference a b = 0 \<longleftrightarrow> a = b"
    using npos S0 eq by (simp add: mean_squared_difference_def)
  have mnn: "0 \<le> mean_squared_difference a b"
    unfolding mean_squared_difference_def by (intro divide_nonneg_nonneg sum_nonneg) simp_all
  show ?thesis
  proof (cases "a = b")
    case True
    with m0 have "mean_squared_difference a b = 0" by simp
    with True show ?thesis
      using bin mse unfolding calculate_psnr_def by (simp add: Let_def)
  next
    case False
    with m0 mnn have pos: "0 < mean_squared_difference a b" by simp
    then have "0 < sqrt (mean_squared_difference a b)" by simp
    with False pos show ?thesis
      using bin mse unfolding calculate_psnr_def
      by (simp add: Let_def py_truediv_def)
  qed
qed

theorem calculate_psnr_formula_witness:
  "calculate_psnr \<lparr>shape = [1, 2], data = [10, 20]\<rparr> \<lparr>shape = [1, 2], data = [13, 24]\<rparr>
     = Inr (Fin (20 * log 10 (255 / sqrt (25 / 2))))
   \<and> calculate_psnr \<lparr>shape = [1, 2], data = [10, 20]\<rparr> \<lparr>shape = [1, 2], data = [10, 20]\<rparr>
     = Inr PInf"
  using calculate_psnr_formula [of "\<lparr>shape = [1, 2], data = [10, 20]\<rparr>" "\<lparr>shape = [1, 2], data = [13, 24]\<rparr>"]
        calculate_psnr_formula [of "\<lparr>shape = [1, 2], data = [10, 20]\<rparr>" "\<lparr>shape = [1, 2], data = [10, 20]\<rparr>"]
  by (simp add: wf_array_def mean_squared_difference_def lessThan_Suc numeral_2_eq_2)

section \<open>Properties of the SSIM dispatch\<close>




text \<open>
  Claim C3. Two arrays of shape \<open>(11, 11, 2)\<close> have one shape and three axes, and their third
  axis is neither 3 nor 1: \<open>calculate_ssim\<close> falls out of the inner \<open>if\<close> and returns
  \<open>None\<close>; it does not raise.
\<close>

theorem calculate_ssim_two_channels_returns_none:
  "calculate_ssim \<lparr>shape = [11, 11, 2], data = replicate 242 0\<rparr>
                  \<lparr>shape = [11, 11, 2], data = replicate 242 0\<rparr> = Inr None"
  by (simp add: calculate_ssim_def ndim_def)

section \<open>Properties of the distance correlation\<close>

lemma foldl_snoc_map: "foldl (\<lambda>acc x. acc @ [f x]) acc xs = acc @ map f xs"
  by (induction xs arbitrary: acc) simp_all

lemma foldl_append_concat: "foldl (\<lambda>acc x. acc @ f x) acc xs = acc @ concat (map f xs)"
  by (induction xs arbitrary: acc) simp_all

lemma compute_correlation_for_distance_eq:
  "compute_correlation_for_distance img d = distance_correlation img d"
proof -
  have body: "(\<lambda>correlations dy.
            if dx = 0 \<and> dy = 0 then correlations @ [Fin 1]
            else
              let shifted = np_roll img dx dy;
                  corr_values =
                    map (\<lambda>col. corrcoef_01 (column img col) (column shifted col))
                        [0..<cols img]
              in correlations @ [pf_mean corr_values])
        = (\<lambda>correlations dy. correlations @ [offset_correlation img dx dy])" for dx
    by (intro ext) (simp add: offset_correlation_def Let_def)
  show ?thesis
    unfolding compute_correlation_for_distance_def distance_correlation_def body
    by (simp add: foldl_snoc_map foldl_append_concat)
qed

text \<open>
  Claim C7. \<open>relative_distance_correlation\<close> returns one value for each distance
  \<open>d = 1, \<dots>, max_distance\<close>, in this order: the mean over the offsets \<open>0 \<le> dx \<le> d\<close>,
  \<open>0 \<le> dy \<le> d\<close> of the average over the columns of the correlation between the image and
  its cyclic shift by \<open>(dx, dy)\<close>, where the offset \<open>(0, 0)\<close> counts as 1.
\<close>

theorem relative_distance_correlation_spec:
  "relative_distance_correlation img max_distance
     = map (distance_correlation img) [1..max_distance]
   \<and> length (relative_distance_correlation img max_distance) = nat max_distance"
  unfolding relative_distance_correlation_def compute_correlation_for_distance_eq
  by (simp add: foldl_snoc_map)

theorem relative_distance_correlation_spec_witness:
  "relative_distance_correlation \<lparr>rows = 2, cols = 2, pixels = [1, 2, 3, 5]\<rparr> 2
     = [distance_correlation \<lparr>rows = 2, cols = 2, pixels = [1, 2, 3, 5]\<rparr> 1,
        distance_correlation \<lparr>rows = 2, cols = 2, pixels = [1, 2, 3, 5]\<rparr> 2]
   \<and> length (relative_distance_correlation \<lparr>rows = 2, cols = 2, pixels = [1, 2, 3, 5]\<rparr> 2) = 2"
  using relative_distance_correlation_spec [of "\<lparr>rows = 2, cols = 2, pixels = [1, 2, 3, 5]\<rparr>" 2]
  by (simp add: upto.simps)

section \<open>Sums of finite values\<close>

lemma pf_sum_Fin: "pf_sum (map Fin xs) = Fin (sum_list xs)"
  by (induction xs) (simp_all add: pf_sum_def)

lemma pf_mean_Fin: "xs \<noteq> [] \<Longrightarrow> pf_mean (map Fin xs) = Fin (list_mean xs)"
  by (simp add: pf_mean_def pf_sum_Fin list_mean_def)

lemma np_mean_Fin: "xs \<noteq> [] \<Longrightarrow> np_mean xs = Fin (list_mean xs)"
  by (simp add: np_mean_def list_mean_def)

lemma centred_Fin:
  "map (\<lambda>v. pf_sub (Fin v) (np_mean xs)) xs = map Fin (map (\<lambda>v. v - list_mean xs) xs)"
proof (cases "xs = []")
  case True
  then show ?thesis by simp
next
  case False
  then show ?thesis by (simp add: np_mean_Fin pf_sub_def)
qed

lemma map2_pf_mul_Fin:
  "map2 pf_mul (map Fin xs) (map Fin ys) = map Fin (map2 (*) xs ys)"
  by (simp add: zip_map_map case_prod_unfold)

lemma map_square_Fin: "map (\<lambda>v. pf_mul v v) (map Fin xs) = map Fin (map (\<lambda>v. v\<^sup>2) xs)"
  by (simp add: power2_eq_square)

text \<open>The Cauchy-Schwarz inequality for finite sums and for lists.\<close>

lemma cauchy_schwarz_sum:
  fixes a b :: "'i \<Rightarrow> real"
  assumes fin: "finite S"
  shows "(\<Sum>i\<in>S. a i * b i)\<^sup>2 \<le> (\<Sum>i\<in>S. (a i)\<^sup>2) * (\<Sum>i\<in>S. (b i)\<^sup>2)"
proof -
  define A where "A = (\<Sum>i\<in>S. (a i)\<^sup>2)"
  define B where "B = (\<Sum>i\<in>S. (b i)\<^sup>2)"
  define C where "C = (\<Sum>i\<in>S. a i * b i)"
  have Bnn: "0 \<le> B" unfolding B_def by (intro sum_nonneg) simp
  have e: "(a i * B - b i * C)\<^sup>2 = B\<^sup>2 * (a i)\<^sup>2 - 2 * B * C * (a i * b i) + C\<^sup>2 * (b i)\<^sup>2" for i
    by (simp add: power2_eq_square algebra_simps)
  have "(\<Sum>i\<in>S. (a i * B - b i * C)\<^sup>2)
          = (\<Sum>i\<in>S. B\<^sup>2 * (a i)\<^sup>2 - 2 * B * C * (a i * b i) + C\<^sup>2 * (b i)\<^sup>2)"
    by (simp only: e)
  also have "\<dots> = B\<^sup>2 * (\<Sum>i\<in>S. (a i)\<^sup>2) - 2 * B * C * (\<Sum>i\<in>S. a i * b i)
                     + C\<^sup>2 * (\<Sum>i\<in>S. (b i)\<^sup>2)"
    by (simp only: sum.distrib sum_subtractf sum_distrib_left)
  finally have "(\<Sum>i\<in>S. (a i * B - b i * C)\<^sup>2) = B\<^sup>2 * A - 2 * B * C * C + C\<^sup>2 * B"
    by (simp only: A_def B_def C_def)
  moreover have "0 \<le> (\<Sum>i\<in>S. (a i * B - b i * C)\<^sup>2)"
    by (intro sum_nonneg) simp
  ultimately have "0 \<le> B\<^sup>2 * A - 2 * B * C * C + C\<^sup>2 * B" by simp
  also have "\<dots> = B * (A * B - C\<^sup>2)" by (simp add: power2_eq_square algebra_simps)
  finally have main: "0 \<le> B * (A * B - C\<^sup>2)" .
  show ?thesis
  proof (cases "B = 0")
    case True
    then have "\<forall>i\<in>S. (b i)\<^sup>2 = 0"
      unfolding B_def using fin by (simp add: sum_nonneg_eq_0_iff)
    then have "C = 0" unfolding C_def by simp
    then show ?thesis using True unfolding A_def B_def C_def by simp
  next
    case False
    with Bnn have "0 < B" by simp
    with main have "0 \<le> A * B - C\<^sup>2" by (simp add: zero_le_mult_iff)
    then show ?thesis unfolding A_def B_def C_def by simp
  qed
qed

lemma sum_list_map2_nth:
  "length xs = length ys \<Longrightarrow> sum_list (map2 f xs ys) = (\<Sum>k<length xs. f (xs ! k) (ys ! k))"
  for f :: "'a \<Rightarrow> 'b \<Rightarrow> real"
proof -
  assume len: "length xs = length ys"
  have "sum_list (map2 f xs ys) = (\<Sum>k = 0..<length xs. map2 f xs ys ! k)"
    using len by (simp add: sum_list_sum_nth)
  also have "\<dots> = (\<Sum>k = 0..<length xs. f (xs ! k) (ys ! k))"
    using len by (intro sum.cong) simp_all
  finally show ?thesis by (simp add: atLeast0LessThan)
qed

lemma sum_list_map_nth:
  "sum_list (map f xs) = (\<Sum>k<length xs. f (xs ! k))"
  for f :: "'a \<Rightarrow> real"
proof -
  have "sum_list (map f xs) = (\<Sum>k = 0..<length xs. map f xs ! k)"
    by (simp add: sum_list_sum_nth)
  also have "\<dots> = (\<Sum>k = 0..<length xs. f (xs ! k))"
    by (intro sum.cong) simp_all
  finally show ?thesis by (simp add: atLeast0LessThan)
qed

lemma cauchy_schwarz_list:
  fixes f g :: "'a \<Rightarrow> real"
  assumes "length xs = length ys"
  shows "(sum_list (map2 (\<lambda>x y. f x * g y) xs ys))\<^sup>2
           \<le> sum_list (map (\<lambda>x. (f x)\<^sup>2) xs) * sum_list (map (\<lambda>y. (g y)\<^sup>2) ys)"
proof -
  have "(\<Sum>k<length xs. f (xs ! k) * g (ys ! k))\<^sup>2
          \<le> (\<Sum>k<length xs. (f (xs ! k))\<^sup>2) * (\<Sum>k<length xs. (g (ys ! k))\<^sup>2)"
    by (rule cauchy_schwarz_sum) simp
  then show ?thesis
    using assms by (simp add: sum_list_map2_nth sum_list_map_nth)
qed

section \<open>Properties of the cross-correlation SNR\<close>

lemma not_constant_nonempty: "\<not> is_constant xs \<Longrightarrow> xs \<noteq> []"
  by (auto simp: is_constant_def)

lemma not_constant_sum_pos:
  assumes "\<not> is_constant xs"
  shows "0 < sum_list (map (\<lambda>x. (x - c)\<^sup>2) xs)"
proof (rule ccontr)
  assume "\<not> 0 < sum_list (map (\<lambda>x. (x - c)\<^sup>2) xs)"
  moreover have "0 \<le> sum_list (map (\<lambda>x. (x - c)\<^sup>2) xs)"
    by (intro sum_list_nonneg) auto
  ultimately have "sum_list (map (\<lambda>x. (x - c)\<^sup>2) xs) = 0" by simp
  then have "\<forall>v\<in>set (map (\<lambda>x. (x - c)\<^sup>2) xs). v = 0"
    by (subst (asm) sum_list_nonneg_eq_0_iff) auto
  then have all: "\<forall>x\<in>set xs. x = c" by auto
  then have "is_constant xs"
    by (cases xs) (auto simp: is_constant_def list_all_iff)
  with assms show False by simp
qed

lemma not_constant_variance_pos:
  assumes "\<not> is_constant xs"
  shows "0 < list_mean (map (\<lambda>x. (x - c)\<^sup>2) xs)"
  using not_constant_sum_pos [OF assms, of c] not_constant_nonempty [OF assms]
  by (simp add: list_mean_def)




lemma snr_db_Fin:
  assumes "r \<le> 1"
  shows "snr_db (Fin r) =
           (if r < 0 then NaN else if r = 0 then NInf else if r = 1 then PInf
            else Fin (10 * log 10 (r / (1 - r))))"
proof -
  consider "r < 0" | "r = 0" | "r = 1" | "0 < r" "r < 1"
    using assms by fastforce
  then show ?thesis
  proof cases
    case 1
    then have "r / (1 - r) < 0" by (simp add: divide_neg_pos)
    with 1 show ?thesis by (simp add: snr_db_def pf_sub_def)
  next
    case 2
    then show ?thesis by (simp add: snr_db_def pf_sub_def inf_signed_def)
  next
    case 3
    then show ?thesis by (simp add: snr_db_def pf_sub_def inf_signed_def)
  next
    case 4
    then have "\<not> r / (1 - r) < 0" "r / (1 - r) \<noteq> 0"
      by (simp_all add: divide_less_0_iff)
    moreover have "\<not> r < 0" "r \<noteq> 0" "r \<noteq> 1" "1 - r \<noteq> 0" using 4 by simp_all
    ultimately show ?thesis by (simp add: snr_db_def pf_sub_def)
  qed
qed

lemma wf_array_np_map: "wf_array a \<Longrightarrow> wf_array (np_map f a)"
  by (simp add: wf_array_def np_map_def)

lemma calculate_snr_correlation:
  assumes o1: "fs p1 = Some img1" and o2: "fs p2 = Some img2"
    and sh: "shape img1 = shape img2" and wf: "wf_array img1" "wf_array img2"
    and nc: "\<not> is_constant (data img1)" "\<not> is_constant (data img2)"
  shows "calculate_snr fs p1 p2 =
           (let r = Fin (pearson (data img1) (data img2))
            in Inr (if pf_less r (Fin 0) then [PrintCorrelation p1 p2 r] else [], snr_db r))"
proof -
  let ?d1 = "data img1" and ?d2 = "data img2"
  let ?c1 = "map (\<lambda>v. v - list_mean ?d1) ?d1" and ?c2 = "map (\<lambda>v. v - list_mean ?d2) ?d2"
  have len: "length ?d1 = length ?d2" using sh wf by (simp add: wf_array_def)
  have ne: "?d1 \<noteq> []" "?d2 \<noteq> []" using nc by (auto dest: not_constant_nonempty)
  have m1: "np_map (\<lambda>x. pf_sub (Fin x) (np_mean ?d1)) img1
              = \<lparr>shape = shape img1, data = map Fin ?c1\<rparr>"
    by (simp add: np_map_def centred_Fin)
  have m2: "np_map (\<lambda>x. pf_sub (Fin x) (np_mean ?d2)) img2
              = \<lparr>shape = shape img2, data = map Fin ?c2\<rparr>"
    by (simp add: np_map_def centred_Fin)
  have bin: "np_binop pf_mul \<lparr>shape = shape img1, data = map Fin ?c1\<rparr>
                             \<lparr>shape = shape img2, data = map Fin ?c2\<rparr>
               = Inr \<lparr>shape = shape img1, data = map Fin (map2 (*) ?c1 ?c2)\<rparr>"
  proof -
    have "np_binop pf_mul \<lparr>shape = shape img1, data = map Fin ?c1\<rparr>
                          \<lparr>shape = shape img2, data = map Fin ?c2\<rparr>
            = Inr \<lparr>shape = shape \<lparr>shape = shape img1, data = map Fin ?c1\<rparr>,
                   data = map2 pf_mul (data \<lparr>shape = shape img1, data = map Fin ?c1\<rparr>)
                                      (data \<lparr>shape = shape img2, data = map Fin ?c2\<rparr>)\<rparr>"
      using sh wf by (intro np_binop_same_shape) (simp_all add: wf_array_def)
    then show ?thesis
      by (simp only: ndarray.select_convs map2_pf_mul_Fin)
  qed
  have prod: "map2 (*) ?c1 ?c2
                = map2 (\<lambda>x y. (x - list_mean ?d1) * (y - list_mean ?d2)) ?d1 ?d2"
    by (simp add: zip_map_map case_prod_unfold)
  have prod_ne: "map2 (\<lambda>x y. (x - list_mean ?d1) * (y - list_mean ?d2)) ?d1 ?d2 \<noteq> []"
    using ne len by (cases ?d1; cases ?d2) simp_all
  have num: "pf_mean (map Fin (map2 (*) ?c1 ?c2))
               = Fin (list_mean (map2 (\<lambda>x y. (x - list_mean ?d1) * (y - list_mean ?d2)) ?d1 ?d2))"
    unfolding prod using prod_ne by (rule pf_mean_Fin)
  have sq1: "pf_mean (map (\<lambda>x. pf_mul x x) (map Fin ?c1))
               = Fin (list_mean (map (\<lambda>x. (x - list_mean ?d1)\<^sup>2) ?d1))"
    unfolding map_square_Fin using ne(1) by (subst pf_mean_Fin) (simp_all add: comp_def)
  have sq2: "pf_mean (map (\<lambda>x. pf_mul x x) (map Fin ?c2))
               = Fin (list_mean (map (\<lambda>x. (x - list_mean ?d2)\<^sup>2) ?d2))"
    unfolding map_square_Fin using ne(2) by (subst pf_mean_Fin) (simp_all add: comp_def)
  have v1: "0 < list_mean (map (\<lambda>x. (x - list_mean ?d1)\<^sup>2) ?d1)"
    using nc(1) by (rule not_constant_variance_pos)
  have v2: "0 < list_mean (map (\<lambda>x. (x - list_mean ?d2)\<^sup>2) ?d2)"
    using nc(2) by (rule not_constant_variance_pos)
  from v1 v2 have den: "0 < sqrt (list_mean (map (\<lambda>x. (x - list_mean ?d1)\<^sup>2) ?d1) *
                               list_mean (map (\<lambda>x. (x - list_mean ?d2)\<^sup>2) ?d2))"
    by simp
  have r: "pf_div (pf_mean (map Fin (map2 (*) ?c1 ?c2)))
             (np_sqrt (pf_mul (pf_mean (map (\<lambda>x. pf_mul x x) (map Fin ?c1)))
                              (pf_mean (map (\<lambda>x. pf_mul x x) (map Fin ?c2)))))
           = Fin (pearson ?d1 ?d2)"
  proof -
    from v1 v2 have "\<not> list_mean (map (\<lambda>x. (x - list_mean ?d1)\<^sup>2) ?d1) *
                        list_mean (map (\<lambda>x. (x - list_mean ?d2)\<^sup>2) ?d2) < 0"
      by (simp add: not_less)
    then show ?thesis
      unfolding num sq1 sq2 using den v1 v2 by (simp add: pearson_def)
  qed
  show ?thesis
    by (simp only: calculate_snr_def Image_open_def o1 o2 option.simps and_then_Inr Let_def
          m1 m2 bin ndarray.select_convs r)
qed



lemma broadcast_shapes_commute: "broadcast_shapes xs ys = broadcast_shapes ys xs"
proof (induction xs ys rule: broadcast_shapes.induct)
  case (1 ys)
  then show ?case by (cases ys) simp_all
next
  case (2 x xs)
  then show ?case by simp
next
  case (3 x xs y ys)
  then show ?case by auto
qed

lemma np_binop_commute:
  assumes "\<And>x y. f x y = f y x"
  shows "np_binop f a b = np_binop f b a"
proof -
  show ?thesis
    unfolding np_binop_def broadcast_shapes_commute [of "rev (shape a)"]
    by (auto split: option.splits intro: assms)
qed

lemma pf_mul_commute: "pf_mul x y = pf_mul y x"
  by (cases x; cases y) (simp_all add: mult.commute)

lemma calculate_snr_value_commute:
  "map_sum id snd (calculate_snr fs a b) = map_sum id snd (calculate_snr fs b a)"
proof (cases "fs a")
  case None
  then show ?thesis
    by (cases "fs b") (simp_all add: calculate_snr_def Image_open_def)
next
  case a: (Some A)
  show ?thesis
  proof (cases "fs b")
    case None
    with a show ?thesis by (simp add: calculate_snr_def Image_open_def)
  next
    case b: (Some B)
    let ?c1 = "np_map (\<lambda>x. pf_sub (Fin x) (np_mean (data A))) A"
    let ?c2 = "np_map (\<lambda>x. pf_sub (Fin x) (np_mean (data B))) B"
    have bc: "np_binop pf_mul ?c1 ?c2 = np_binop pf_mul ?c2 ?c1"
      by (rule np_binop_commute) (rule pf_mul_commute)
    have pm: "pf_mul (pf_mean (map (\<lambda>x. pf_mul x x) (data ?c1)))
                     (pf_mean (map (\<lambda>x. pf_mul x x) (data ?c2)))
              = pf_mul (pf_mean (map (\<lambda>x. pf_mul x x) (data ?c2)))
                       (pf_mean (map (\<lambda>x. pf_mul x x) (data ?c1)))"
      by (rule pf_mul_commute)
    show ?thesis
      unfolding calculate_snr_def Image_open_def a b
      by (cases "np_binop pf_mul ?c2 ?c1") (simp_all only: option.simps and_then_Inr and_then_Inl Let_def bc pm map_sum.simps snd_conv id_apply)
  qed
qed

lemma pearson_self:
  assumes "\<not> is_constant xs"
  shows "pearson xs xs = 1"
proof -
  have pos: "0 < list_mean (map (\<lambda>x. (x - list_mean xs)\<^sup>2) xs)"
    using assms by (rule not_constant_variance_pos)
  have "map2 (\<lambda>x y. (x - list_mean xs) * (y - list_mean xs)) xs xs
          = map (\<lambda>x. (x - list_mean xs)\<^sup>2) xs"
    by (simp add: zip_same_conv_map power2_eq_square)
  then show ?thesis
    using pos by (simp add: pearson_def)
qed

lemma snr_db_diverges:
  "\<exists>\<delta>>0. \<forall>r. 1 - \<delta> < r \<and> r < 1 \<longrightarrow> (\<exists>v. snr_db (Fin r) = Fin v \<and> M < v)"
proof -
  define K where "K = max 1 (10 powr (M / 10))"
  have K1: "1 \<le> K" and KM: "10 powr (M / 10) \<le> K" by (simp_all add: K_def)
  define \<delta> where "\<delta> = 1 / (1 + K)"
  have dpos: "0 < \<delta>" using K1 by (simp add: \<delta>_def)
  have "\<exists>v. snr_db (Fin r) = Fin v \<and> M < v" if r: "1 - \<delta> < r" "r < 1" for r
  proof -
    have "1 - \<delta> = K / (1 + K)" using K1 by (simp add: \<delta>_def field_simps)
    with r have rK: "K / (1 + K) < r" by simp
    then have "K < r * (1 + K)" using K1 by (simp add: pos_divide_less_eq)
    then have "K * (1 - r) < r" by (simp add: algebra_simps)
    then have big: "K < r / (1 - r)" using r(2) by (simp add: pos_less_divide_eq)
    have rpos: "0 < r" using rK K1 by (smt (verit) divide_nonneg_nonneg)
    have "10 powr (M / 10) < r / (1 - r)" using KM big by simp
    moreover have "0 < r / (1 - r)" using rpos r(2) by simp
    ultimately have "log 10 (10 powr (M / 10)) < log 10 (r / (1 - r))"
      by (subst log_less_cancel_iff) simp_all
    then have "M < 10 * log 10 (r / (1 - r))" by simp
    moreover have "snr_db (Fin r) = Fin (10 * log 10 (r / (1 - r)))"
      using rpos r(2) by (simp add: snr_db_Fin)
    ultimately show ?thesis by blast
  qed
  with dpos show ?thesis by blast
qed



text \<open>
  Claim C8. The value returned by \<open>calculate_snr\<close> (or the error raised) is the same for the
  two orders of its arguments. For a frame that is not constant, the correlation of the
  frame with itself is 1 and \<open>SNR(a, a)\<close> is \<open>+inf\<close>; and the returned expression exceeds
  every bound as \<open>r\<close> tends to 1 from below.
\<close>

theorem calculate_snr_symmetric:
  "map_sum id snd (calculate_snr fs a b) = map_sum id snd (calculate_snr fs b a)
   \<and> (fs a = Some img \<and> wf_array img \<and> \<not> is_constant (data img)
        \<longrightarrow> calculate_snr fs a a = Inr ([], PInf))
   \<and> (\<exists>\<delta>>0. \<forall>r. 1 - \<delta> < r \<and> r < 1 \<longrightarrow> (\<exists>v. snr_db (Fin r) = Fin v \<and> M < v))"
proof (intro conjI impI)
  show "map_sum id snd (calculate_snr fs a b) = map_sum id snd (calculate_snr fs b a)"
    by (rule calculate_snr_value_commute)
next
  assume h: "fs a = Some img \<and> wf_array img \<and> \<not> is_constant (data img)"
  then have "calculate_snr fs a a =
           (let r = Fin (pearson (data img) (data img))
            in Inr (if pf_less r (Fin 0) then [PrintCorrelation a a r] else [], snr_db r))"
    by (intro calculate_snr_correlation) simp_all
  then show "calculate_snr fs a a = Inr ([], PInf)"
    using h by (simp add: pearson_self snr_db_Fin)
next
  show "\<exists>\<delta>>0. \<forall>r. 1 - \<delta> < r \<and> r < 1 \<longrightarrow> (\<exists>v. snr_db (Fin r) = Fin v \<and> M < v)"
    by (rule snr_db_diverges)
qed

theorem calculate_snr_symmetric_witness:
  "map_sum id snd
     (calculate_snr [''a.tif'' \<mapsto> \<lparr>shape = [1, 2], data = [1, 2]\<rparr>,
                     ''b.tif'' \<mapsto> \<lparr>shape = [1, 2], data = [2, 1]\<rparr>] ''a.tif'' ''b.tif'')
   = map_sum id snd
       (calculate_snr [''a.tif'' \<mapsto> \<lparr>shape = [1, 2], data = [1, 2]\<rparr>,
                       ''b.tif'' \<mapsto> \<lparr>shape = [1, 2], data = [2, 1]\<rparr>] ''b.tif'' ''a.tif'')
   \<and> calculate_snr [''a.tif'' \<mapsto> \<lparr>shape = [1, 2], data = [1, 2]\<rparr>,
                    ''b.tif'' \<mapsto> \<lparr>shape = [1, 2], data = [2, 1]\<rparr>] ''a.tif'' ''a.tif''
     = Inr ([], PInf)
   \<and> (\<exists>\<delta>>0. \<forall>r. 1 - \<delta> < r \<and> r < 1 \<longrightarrow> (\<exists>v. snr_db (Fin r) = Fin v \<and> 100 < v))"
  using calculate_snr_symmetric
          [of "[''a.tif'' \<mapsto> \<lparr>shape = [1, 2], data = [1, 2]\<rparr>,
                ''b.tif'' \<mapsto> \<lparr>shape = [1, 2], data = [2, 1]\<rparr>]" "''a.tif''" "''b.tif''"
              "\<lparr>shape = [1, 2], data = [1, 2]\<rparr>" 100]
  by (simp add: wf_array_def is_constant_def)

section \<open>Properties of the SNR evaluation\<close>

lemma snr_loop_fold:
  assumes "\<forall>i\<in>set ixs. i + 1 < length noisy_list \<and> i + 1 < length denoised_list
             \<and> i + 2 < length sn \<and> i + 2 < length sd
             \<and> calculate_snr fs (noisy_list ! i) (noisy_list ! (i + 1)) = Inr (on i, vn i)
             \<and> calculate_snr fs (denoised_list ! i) (denoised_list ! (i + 1)) = Inr (od i, vd i)"
  shows "snr_loop fs noisy_list denoised_list ixs (sn, sd, out)
           = Inr (fold (\<lambda>i s. s[i + 2 := vn i]) ixs sn,
                  fold (\<lambda>i s. s[i + 2 := vd i]) ixs sd,
                  out @ concat (map (\<lambda>i. on i @ od i) ixs))"
  using assms
proof (induction ixs arbitrary: sn sd out)
  case Nil
  then show ?case by simp
next
  case (Cons i ixs)
  have step: "\<forall>j\<in>set ixs. j + 1 < length noisy_list \<and> j + 1 < length denoised_list
             \<and> j + 2 < length (sn[i + 2 := vn i]) \<and> j + 2 < length (sd[i + 2 := vd i])
             \<and> calculate_snr fs (noisy_list ! j) (noisy_list ! (j + 1)) = Inr (on j, vn j)
             \<and> calculate_snr fs (denoised_list ! j) (denoised_list ! (j + 1)) = Inr (od j, vd j)"
    using Cons.prems by simp
  have here: "i + 1 < length noisy_list" "i + 1 < length denoised_list"
      "i + 2 < length sn" "i + 2 < length sd"
      "calculate_snr fs (noisy_list ! i) (noisy_list ! (i + 1)) = Inr (on i, vn i)"
      "calculate_snr fs (denoised_list ! i) (denoised_list ! (i + 1)) = Inr (od i, vd i)"
    using Cons.prems by simp_all
  show ?case
    using here Cons.IH [OF step, of "out @ on i @ od i"]
    by (simp add: list_get_def array_set_def)
qed

lemma fold_update_upt:
  assumes "m + 2 \<le> length s"
  shows "fold (\<lambda>i s. s[i + 2 := v i]) [0..<m] s = take 2 s @ map v [0..<m] @ drop (m + 2) s"
  using assms
proof (induction m)
  case 0
  then show ?case by (simp add: numeral_2_eq_2)
next
  case (Suc m)
  then have IH: "fold (\<lambda>i s. s[i + 2 := v i]) [0..<m] s = take 2 s @ map v [0..<m] @ drop (m + 2) s"
    by simp
  have d: "drop (m + 2) s = s ! (m + 2) # drop (Suc m + 2) s"
    using Suc.prems by (simp add: Cons_nth_drop_Suc)
  show ?case
    using Suc.prems
    by (simp add: IH d list_update_append del: add_2_eq_Suc add_2_eq_Suc')
qed


text \<open>
  Claim C9. For a dataset of \<open>num_img \<ge> 1\<close> frames whose adjacent pairs all have an SNR
  (no call of \<open>calculate_snr\<close> raises), the array written to \<open>snr_noisy.txt\<close> has
  \<open>num_img + 1\<close> entries: the mean of the per-pair values, their standard deviation, and
  then the \<open>num_img - 1\<close> per-pair values in frame order. Each entry is written in the
  format \<open>%.6f\<close> on a line of its own. The same holds for \<open>snr_denoised.txt\<close>.
\<close>

theorem snr_evaluation_output:
  assumes n1: "1 \<le> length noisy_list"
    and len: "length denoised_list = length noisy_list"
    and noisy: "\<forall>i<length noisy_list - 1.
                  calculate_snr fs (noisy_list ! i) (noisy_list ! (i + 1)) = Inr (on i, vn i)"
    and denoised: "\<forall>i<length noisy_list - 1.
                  calculate_snr fs (denoised_list ! i) (denoised_list ! (i + 1)) = Inr (od i, vd i)"
  shows "let num_img = length noisy_list;
             values_noisy = map vn [0..<num_img - 1];
             values_denoised = map vd [0..<num_img - 1];
             snr_noisy = pf_mean values_noisy # pf_std values_noisy # values_noisy;
             snr_denoised = pf_mean values_denoised # pf_std values_denoised # values_denoised
         in length snr_noisy = num_img + 1
          \<and> snr_evaluation fs snr_dir noisy_list denoised_list =
              Inr ([(os_path_join snr_dir ''snr_noisy.txt'',
                     concat (map (\<lambda>v. format_6f v @ [CHR 0x0A]) snr_noisy)),
                    (os_path_join snr_dir ''snr_denoised.txt'',
                     concat (map (\<lambda>v. format_6f v @ [CHR 0x0A]) snr_denoised))],
                   concat (map (\<lambda>i. on i @ od i) [0..<num_img - 1]) @
                   [PrintSummary ''mean SNR of noisy images = ''
                      (pf_mean values_noisy) (pf_std values_noisy),
                    PrintSummary ''mean SNR of denoised images = ''
                      (pf_mean values_denoised) (pf_std values_denoised)])"
proof -
  let ?n = "length noisy_list"
  let ?z = "replicate (?n + 1) (Fin 0)"
  have loop: "snr_loop fs noisy_list denoised_list [0..<?n - 1] (?z, ?z, [])
           = Inr (fold (\<lambda>i s. s[i + 2 := vn i]) [0..<?n - 1] ?z,
                  fold (\<lambda>i s. s[i + 2 := vd i]) [0..<?n - 1] ?z,
                  [] @ concat (map (\<lambda>i. on i @ od i) [0..<?n - 1]))"
    using n1 len noisy denoised by (intro snr_loop_fold) auto
  have f: "fold (\<lambda>i s. s[i + 2 := v i]) [0..<?n - 1] ?z = Fin 0 # Fin 0 # map v [0..<?n - 1]"
    for v :: "nat \<Rightarrow> pyfloat"
  proof -
    have "fold (\<lambda>i s. s[i + 2 := v i]) [0..<?n - 1] ?z
            = take 2 ?z @ map v [0..<?n - 1] @ drop (?n - 1 + 2) ?z"
      using n1 by (intro fold_update_upt) simp
    also have "take 2 ?z = [Fin 0, Fin 0]"
      using n1 by (simp add: numeral_2_eq_2 take_Suc_conv_app_nth)
    also have "drop (?n - 1 + 2) ?z = []"
      using n1 by simp
    finally show ?thesis by simp
  qed
  show ?thesis
    using n1 unfolding snr_evaluation_def Let_def loop f
    by (simp add: array_set_def savetxt_def)
qed

theorem snr_evaluation_output_witness:
  "snr_evaluation
     [''n0'' \<mapsto> \<lparr>shape = [2, 4], data = [10, - 10, 0, 0, 0, 0, 0, 0]\<rparr>,
      ''n1'' \<mapsto> \<lparr>shape = [2, 4], data = [10, - 10, 4, - 4, 2, - 2, 1, - 1]\<rparr>,
      ''d0'' \<mapsto> \<lparr>shape = [2, 4], data = [10, - 10, 0, 0, 0, 0, 0, 0]\<rparr>,
      ''d1'' \<mapsto> \<lparr>shape = [2, 4], data = [10, - 10, 4, - 4, 2, - 2, 1, - 1]\<rparr>]
     ''out'' [''n0'', ''n1''] [''d0'', ''d1'']
   = Inr ([(''out/snr_noisy.txt'',
            ''10.000000'' @ [CHR 0x0A] @ ''0.000000'' @ [CHR 0x0A] @ ''10.000000'' @ [CHR 0x0A]),
           (''out/snr_denoised.txt'',
            ''10.000000'' @ [CHR 0x0A] @ ''0.000000'' @ [CHR 0x0A] @ ''10.000000'' @ [CHR 0x0A])],
          [PrintSummary ''mean SNR of noisy images = '' (Fin 10) (Fin 0),
           PrintSummary ''mean SNR of denoised images = '' (Fin 10) (Fin 0)])"
proof -
  let ?X = "\<lparr>shape = [2, 4], data = [10, - 10, 0, 0, 0, 0, 0, 0 :: real]\<rparr>"
  let ?Y = "\<lparr>shape = [2, 4], data = [10, - 10, 4, - 4, 2, - 2, 1, - 1 :: real]\<rparr>"
  let ?fs = "[''n0'' \<mapsto> ?X, ''n1'' \<mapsto> ?Y, ''d0'' \<mapsto> ?X, ''d1'' \<mapsto> ?Y]"
  have s: "sqrt (3025 / 4) = 55 / 2"
    by (rule real_sqrt_unique) (simp_all add: power2_eq_square)
  have p: "pearson (data ?X) (data ?Y) = 10 / 11"
    by (simp add: pearson_def list_mean_def power2_eq_square s)
  have hyp: "\<not> is_constant (data ?X)" "\<not> is_constant (data ?Y)" "wf_array ?X" "wf_array ?Y"
    by (simp_all add: is_constant_def wf_array_def)
  have n: "calculate_snr ?fs ''n0'' ''n1'' = Inr ([], Fin 10)"
    using calculate_snr_correlation [of ?fs "''n0''" ?X "''n1''" ?Y] hyp
    unfolding p by (simp add: snr_db_Fin Let_def)
  have d: "calculate_snr ?fs ''d0'' ''d1'' = Inr ([], Fin 10)"
    using calculate_snr_correlation [of ?fs "''d0''" ?X "''d1''" ?Y] hyp
    unfolding p by (simp add: snr_db_Fin Let_def)
  have d0: "decimal 0 = ''0''"
    by (subst decimal.simps) simp
  have d10: "decimal 10 = ''10''"
    by (subst decimal.simps, subst decimal.simps) simp
  have r5: "replicate 5 (CHR ''0'') = ''00000''"
    by (simp add: numeral_eq_Suc)
  have "round_half_even (\<bar>10\<bar> * 10 ^ 6) = 10000000"
    by (simp add: round_half_even_def)
  then have f10: "format_6f (Fin 10) = ''10.000000''"
    by (simp add: format_6f_def d0 d10 r5 Let_def)
  have f0: "format_6f (Fin 0) = ''0.000000''"
    by (simp add: format_6f_def round_half_even_def d0 r5 Let_def)
  have m: "pf_mean [Fin 10] = Fin 10" "pf_std [Fin 10] = Fin 0"
    by (simp_all add: pf_mean_def pf_std_def pf_sum_def pf_sub_def Let_def)
  show ?thesis
    using snr_evaluation_output
            [of "[''n0'', ''n1'']" "[''d0'', ''d1'']" ?fs "\<lambda>i. []" "\<lambda>i. Fin 10"
                "\<lambda>i. []" "\<lambda>i. Fin 10" "''out''"] n d
    by (simp add: Let_def m f10 f0 os_path_join_def)
qed

section \<open>Exact arithmetic as an instance of the rounded operations\<close>

lemma rounded_Fin [simp]: "rounded Fin v = v"
  by (cases v) (simp_all add: rounded_def)

lemma r_ops_exact:
  "r_add Fin = pf_add" "r_sub Fin = pf_sub" "r_mul Fin = pf_mul" "r_div Fin = pf_div"
  "r_sqrt Fin = np_sqrt"
  by (intro ext, simp add: r_add_def r_sub_def r_mul_def r_div_def r_sqrt_def)+

lemma foldl_pf_add_Fin: "foldl pf_add (Fin a) (map Fin xs) = Fin (a + sum_list xs)"
  by (induction xs arbitrary: a) (simp_all add: add.assoc)

lemma sum_list_map2_add:
  fixes r t :: "real list"
  shows "length r = length t \<Longrightarrow> sum_list (map2 (+) r t) = sum_list r + sum_list t"
  by (induction r t rule: list_induct2) simp_all

lemma map2_pf_add_Fin: "map2 pf_add (map Fin xs) (map Fin ys) = map Fin (map2 (+) xs ys)"
  by (simp add: zip_map_map case_prod_unfold)

lemma add_blocks_exact:
  assumes "length r = 8"
  shows "\<exists>r'. add_blocks Fin (map Fin r) (map Fin a) = map Fin r' \<and> length r' = 8
              \<and> sum_list r' = sum_list r + sum_list (take (8 * (length a div 8)) a)"
  using assms
proof (induction a arbitrary: r rule: length_induct)
  case (1 a)
  show ?case
  proof (cases "length a < 8")
    case True
    then show ?thesis
      using "1.prems" by (subst add_blocks.simps) auto
  next
    case False
    let ?r1 = "map2 (+) r (take 8 a)"
    have l1: "length ?r1 = 8" using False "1.prems" by simp
    have s1: "sum_list ?r1 = sum_list r + sum_list (take 8 a)"
      using False "1.prems" by (intro sum_list_map2_add) simp
    have "length (drop 8 a) < length a" using False by simp
    then obtain r' where r': "add_blocks Fin (map Fin ?r1) (map Fin (drop 8 a)) = map Fin r'"
        "length r' = 8"
        "sum_list r' = sum_list ?r1 + sum_list (take (8 * (length (drop 8 a) div 8)) (drop 8 a))"
      using "1.IH" l1 by blast
    have step: "add_blocks Fin (map Fin r) (map Fin a)
                  = add_blocks Fin (map Fin ?r1) (map Fin (drop 8 a))"
      using False
      by (subst add_blocks.simps)
         (simp add: r_ops_exact take_map drop_map map2_pf_add_Fin del: add_blocks.simps)
    have d: "8 * (length a div 8) = 8 + 8 * (length (drop 8 a) div 8)"
    proof -
      have "length a div 8 = Suc ((length a - 8) div 8)"
        using False by (simp add: le_div_geq)
      then show ?thesis by simp
    qed
    have "take (8 * (length a div 8)) a
            = take 8 a @ take (8 * (length (drop 8 a) div 8)) (drop 8 a)"
      unfolding d by (rule take_add)
    then have "sum_list (take (8 * (length a div 8)) a)
            = sum_list (take 8 a) + sum_list (take (8 * (length (drop 8 a) div 8)) (drop 8 a))"
      by simp
    then show ?thesis
      using r' s1 step by (intro exI [of _ r']) simp
  qed
qed

lemma list8:
  assumes "length r = 8"
  shows "r = [r ! 0, r ! 1, r ! 2, r ! 3, r ! 4, r ! 5, r ! 6, r ! 7]"
proof (rule nth_equalityI)
  show "length r = length [r ! 0, r ! 1, r ! 2, r ! 3, r ! 4, r ! 5, r ! 6, r ! 7]"
    using assms by simp
next
  fix i assume "i < length r"
  then have "i < 8" using assms by simp
  then consider "i = 0" | "i = 1" | "i = 2" | "i = 3" | "i = 4" | "i = 5" | "i = 6" | "i = 7"
    by linarith
  then show "r ! i = [r ! 0, r ! 1, r ! 2, r ! 3, r ! 4, r ! 5, r ! 6, r ! 7] ! i"
    by cases simp_all
qed

lemma sum_list8:
  fixes r :: "real list"
  assumes "length r = 8"
  shows "sum_list r = ((r ! 0 + r ! 1) + (r ! 2 + r ! 3)) + ((r ! 4 + r ! 5) + (r ! 6 + r ! 7))"
  by (subst list8 [OF assms]) simp

lemma pairwise_sum_exact: "pairwise_sum Fin (map Fin xs) = Fin (sum_list xs)"
proof (induction xs rule: length_induct)
  case (1 xs)
  let ?n = "length xs"
  consider "?n < 8" | "8 \<le> ?n" "?n \<le> 128" | "128 < ?n" by linarith
  then show ?case
  proof cases
    case 1
    then show ?thesis
      by (subst pairwise_sum.simps) (simp add: r_ops_exact foldl_pf_add_Fin)
  next
    case 2
    let ?a = "take (?n - ?n mod 8 - 8) (drop 8 xs)"
    have l8: "length (take 8 xs) = 8" using 2 by simp
    obtain r' where r': "add_blocks Fin (map Fin (take 8 xs)) (map Fin ?a) = map Fin r'"
        "length r' = 8"
        "sum_list r' = sum_list (take 8 xs) + sum_list (take (8 * (length ?a div 8)) ?a)"
      using add_blocks_exact [OF l8] by blast
    have la: "length ?a = ?n - ?n mod 8 - 8"
      using 2 by simp
    have m8: "?n - ?n mod 8 = 8 * (?n div 8)"
      by (simp add: minus_mod_eq_mult_div)
    have "?n - ?n mod 8 - 8 = 8 * (?n div 8 - 1)"
      unfolding m8 by (simp add: right_diff_distrib')
    then have "8 * (length ?a div 8) = length ?a" unfolding la by simp
    then have sa: "sum_list r' = sum_list (take 8 xs) + sum_list ?a"
      using r'(3) by simp
    have nth: "map Fin r' ! i = Fin (r' ! i)" if "i < 8" for i
      using that r'(2) by simp
    have res: "pf_add (pf_add (pf_add (map Fin r' ! 0) (map Fin r' ! 1))
                              (pf_add (map Fin r' ! 2) (map Fin r' ! 3)))
                      (pf_add (pf_add (map Fin r' ! 4) (map Fin r' ! 5))
                              (pf_add (map Fin r' ! 6) (map Fin r' ! 7)))
               = Fin (sum_list r')"
      by (simp add: nth sum_list8 [OF r'(2)])
    have k: "8 + (?n - ?n mod 8 - 8) = ?n - ?n mod 8"
    proof -
      have "1 \<le> ?n div 8" using 2(1) by (simp add: le_div_geq)
      then have "8 * 1 \<le> 8 * (?n div 8)" by (rule mult_le_mono2)
      then have "8 \<le> ?n - ?n mod 8" unfolding m8 by simp
      then show ?thesis by simp
    qed
    have "take (8 + (?n - ?n mod 8 - 8)) xs = take 8 xs @ ?a"
      by (rule take_add)
    then have "take (?n - ?n mod 8) xs = take 8 xs @ ?a"
      by (simp only: k)
    then have "sum_list (take 8 xs) + sum_list ?a + sum_list (drop (?n - ?n mod 8) xs)
                 = sum_list (take (?n - ?n mod 8) xs @ drop (?n - ?n mod 8) xs)"
      by simp
    also have "\<dots> = sum_list xs" by simp
    finally have total: "sum_list r' + sum_list (drop (?n - ?n mod 8) xs) = sum_list xs"
      using sa by simp
    have c: "(?n < 8) = False" "(?n \<le> 128) = True" using 2 by simp_all
    show ?thesis
      by (subst pairwise_sum.simps)
         (simp only: Let_def length_map c if_False if_True r_ops_exact take_map
            drop_map r'(1) res foldl_pf_add_Fin total)
  next
    case 3
    let ?n2 = "?n div 2 - (?n div 2) mod 8"
    have h: "64 \<le> ?n div 2" "?n div 2 < ?n" using 3 by simp_all
    have m: "(?n div 2) mod 8 < 8" by simp
    have pos: "0 < ?n2" "?n2 < ?n" using h m by linarith+
    have "length (take ?n2 xs) = ?n2" "length (drop ?n2 xs) = ?n - ?n2"
      using pos by simp_all
    then have lt: "length (take ?n2 xs) < ?n" "length (drop ?n2 xs) < ?n"
      using pos by linarith+
    have t: "pairwise_sum Fin (map Fin (take ?n2 xs)) = Fin (sum_list (take ?n2 xs))"
      using "1.IH" lt(1) by blast
    have d: "pairwise_sum Fin (map Fin (drop ?n2 xs)) = Fin (sum_list (drop ?n2 xs))"
      using "1.IH" lt(2) by blast
    have total: "sum_list (take ?n2 xs) + sum_list (drop ?n2 xs) = sum_list xs"
      by (simp only: sum_list_append [symmetric] append_take_drop_id)
    have c: "(?n < 8) = False" "(?n \<le> 128) = False" using 3 by simp_all
    show ?thesis
      by (subst pairwise_sum.simps)
         (simp only: Let_def length_map c if_False r_ops_exact take_map drop_map t d
            pf_add.simps total)
  qed
qed

lemma r_sum_exact: "r_sum Fin (map Fin xs) = Fin (sum_list xs)"
  by (simp add: r_sum_def pairwise_sum_exact r_ops_exact)

lemma r_sum_exact_pf_sum: "r_sum Fin (map Fin xs) = pf_sum (map Fin xs)"
  by (simp add: r_sum_exact pf_sum_Fin)

lemma r_mean_exact: "r_mean Fin x = np_mean x"
  by (simp add: r_mean_def r_sum_exact r_ops_exact np_mean_def)

section \<open>Properties of the heat map\<close>

lemma foldl_nested_product:
  "foldl (\<lambda>h x. foldl (\<lambda>h y. f h x y) h ys) h xs
     = foldl (\<lambda>h (x, y). f h x y) h (List.product xs ys)"
proof (induction xs arbitrary: h)
  case Nil
  then show ?case by simp
next
  case (Cons x xs)
  have "foldl (\<lambda>h (x, y). f h x y) h (map (Pair x) ys) = foldl (\<lambda>h y. f h x y) h ys" for h
    by (induction ys arbitrary: h) simp_all
  then show ?case by (simp add: Cons.IH)
qed

lemma length_foldl_update: "length (foldl (\<lambda>h k. h[pos k := v k]) h ks) = length h"
  by (induction ks arbitrary: h) simp_all

lemma foldl_update_nth:
  assumes "inj_on pos (set ks)" and "\<forall>k\<in>set ks. pos k < length h" and "k \<in> set ks"
  shows "foldl (\<lambda>h k. h[pos k := v k]) h ks ! pos k = v k"
  using assms
proof (induction ks rule: rev_induct)
  case Nil
  then show ?case by simp
next
  case (snoc k' ks)
  show ?case
  proof (cases "pos k = pos k'")
    case True
    then have "k = k'"
      using inj_onD [OF snoc.prems(1) True] snoc.prems(3) by simp
    then show ?thesis using snoc.prems(2) by (simp add: length_foldl_update)
  next
    case False
    then have "k \<in> set ks" using snoc.prems(3) by auto
    moreover have "inj_on pos (set ks)" using snoc.prems(1) by (auto simp: inj_on_def)
    ultimately have "foldl (\<lambda>h k. h[pos k := v k]) h ks ! pos k = v k"
      using snoc.prems(2) by (intro snoc.IH) auto
    then show ?thesis using False by simp
  qed
qed

lemma heatmap_data:
  assumes m: "0 \<le> m"
  shows "spatial_correlation_heatmap rnd img m =
           Inr \<lparr>shape = [nat (2 * m + 1), nat (2 * m + 1)],
                data = foldl (\<lambda>h (dx, dy). h[nat (dx + m) * nat (2 * m + 1) + nat (dy + m)
                                              := heat_value rnd img dx dy])
                         (replicate (nat (2 * m + 1) * nat (2 * m + 1)) (Fin 0))
                         (List.product [- m..m] [- m..m])\<rparr>"
proof -
  have body: "(\<lambda>heatmap dy.
                   if dx = 0 \<and> dy = 0 then
                     heatmap[nat (dx + m) * nat (2 * m + 1) + nat (dy + m) := Fin 1]
                   else
                     heatmap[nat (dx + m) * nat (2 * m + 1) + nat (dy + m)
                             := corr rnd (flatten img) (flatten (np_roll img dx dy))])
             = (\<lambda>heatmap dy. heatmap[nat (dx + m) * nat (2 * m + 1) + nat (dy + m)
                                              := heat_value rnd img dx dy])" for dx
    by (intro ext) (simp add: heat_value_def Let_def)
  show ?thesis
    using m unfolding spatial_correlation_heatmap_def Let_def body
    by (simp add: foldl_nested_product)
qed

lemma heatmap_entry:
  assumes m: "0 \<le> m" and dx: "- m \<le> dx" "dx \<le> m" and dy: "- m \<le> dy" "dy \<le> m"
    and H: "spatial_correlation_heatmap rnd img m = Inr H"
  shows "heatmap_at H (m + dx) (m + dy) = heat_value rnd img dx dy"
proof -
  let ?s = "nat (2 * m + 1)"
  let ?pos = "\<lambda>(dx, dy). nat (dx + m) * ?s + nat (dy + m)"
  let ?ks = "List.product [- m..m] [- m..m]"
  have inj: "inj_on ?pos (set ?ks)"
  proof (rule inj_onI)
    fix p q assume p: "p \<in> set ?ks" and q: "q \<in> set ?ks" and e: "?pos p = ?pos q"
    obtain a b where pab: "p = (a, b)" by (cases p)
    obtain c d where qcd: "q = (c, d)" by (cases q)
    have r: "nat (b + m) < ?s" "nat (d + m) < ?s" using p q pab qcd by auto
    from e have e': "nat (a + m) * ?s + nat (b + m) = nat (c + m) * ?s + nat (d + m)"
      by (simp add: pab qcd)
    have "(nat (a + m) * ?s + nat (b + m)) div ?s = nat (a + m)"
         "(nat (c + m) * ?s + nat (d + m)) div ?s = nat (c + m)"
         "(nat (a + m) * ?s + nat (b + m)) mod ?s = nat (b + m)"
         "(nat (c + m) * ?s + nat (d + m)) mod ?s = nat (d + m)"
      using r by simp_all
    with e' have "nat (a + m) = nat (c + m)" "nat (b + m) = nat (d + m)" by metis+
    then show "p = q" using p q pab qcd by auto
  qed
  have bound: "\<forall>k\<in>set ?ks. ?pos k < length (replicate (?s * ?s) (Fin 0 :: pyfloat))"
  proof
    fix k assume k: "k \<in> set ?ks"
    obtain a b where kab: "k = (a, b)" by (cases k)
    have ab: "nat (a + m) < ?s" "nat (b + m) < ?s" using k kab by auto
    then have "nat (a + m) * ?s + nat (b + m) < (nat (a + m) + 1) * ?s"
      by simp
    moreover have "nat (a + m) + 1 \<le> ?s" using ab(1) by linarith
    then have "(nat (a + m) + 1) * ?s \<le> ?s * ?s" by (rule mult_le_mono1)
    ultimately have "nat (a + m) * ?s + nat (b + m) < ?s * ?s"
      by (rule less_le_trans)
    then show "?pos k < length (replicate (?s * ?s) (Fin 0 :: pyfloat))"
      by (simp add: kab)
  qed
  have mem: "(dx, dy) \<in> set ?ks" using dx dy by simp
  have "foldl (\<lambda>h k. h[?pos k := (\<lambda>(dx, dy). heat_value rnd img dx dy) k])
          (replicate (?s * ?s) (Fin 0)) ?ks ! ?pos (dx, dy)
        = (\<lambda>(dx, dy). heat_value rnd img dx dy) (dx, dy)"
    using inj bound mem by (rule foldl_update_nth)
  moreover have "(\<lambda>h k. h[?pos k := (\<lambda>(dx, dy). heat_value rnd img dx dy) k])
                   = (\<lambda>h (dx, dy). h[nat (dx + m) * ?s + nat (dy + m) := heat_value rnd img dx dy])"
    by (intro ext) (simp add: case_prod_unfold)
  ultimately have "foldl (\<lambda>h (dx, dy). h[nat (dx + m) * ?s + nat (dy + m) := heat_value rnd img dx dy])
          (replicate (?s * ?s) (Fin 0)) ?ks ! (nat (dx + m) * ?s + nat (dy + m))
        = heat_value rnd img dx dy"
    by simp
  then show ?thesis
    using H heatmap_data [OF m, of rnd img] by (auto simp: heatmap_at_def add.commute)
qed

lemma dev_sum_nonneg: "0 \<le> dev_sum x"
  unfolding dev_sum_def by (intro sum_list_nonneg) auto

lemma corr_real:
  "corr Fin x y = pf_div (Fin (cov_sum x y)) (Fin (sqrt (dev_sum x) * sqrt (dev_sum y)))"
proof -
  let ?xc = "map (\<lambda>v. v - list_mean x) x" and ?yc = "map (\<lambda>v. v - list_mean y) y"
  have n: "r_sum Fin (map2 pf_mul (map Fin ?xc) (map Fin ?yc)) = Fin (cov_sum x y)"
    unfolding map2_pf_mul_Fin r_sum_exact cov_sum_def
    by (simp add: zip_map_map case_prod_unfold comp_def)
  have sx: "r_sum Fin (map (\<lambda>v. pf_mul v v) (map Fin ?xc)) = Fin (dev_sum x)"
    unfolding map_square_Fin r_sum_exact dev_sum_def by (simp add: comp_def)
  have sy: "r_sum Fin (map (\<lambda>v. pf_mul v v) (map Fin ?yc)) = Fin (dev_sum y)"
    unfolding map_square_Fin r_sum_exact dev_sum_def by (simp add: comp_def)
  have "\<not> dev_sum x < 0" "\<not> dev_sum y < 0"
    using dev_sum_nonneg [of x] dev_sum_nonneg [of y] by simp_all
  then have d: "pf_mul (np_sqrt (Fin (dev_sum x))) (np_sqrt (Fin (dev_sum y)))
                  = Fin (sqrt (dev_sum x) * sqrt (dev_sum y))"
    by simp
  show ?thesis
    by (simp only: corr_def Let_def r_ops_exact r_mean_exact centred_Fin n sx sy d)
qed

lemma roll_source_less:
  assumes "k < h * w"
  shows "roll_source h w dx dy k < h * w"
proof -
  have w: "0 < w" and h: "0 < h" using assms by (cases w; cases h; simp)+
  let ?i = "nat ((int (k div w) - dx) mod int h)" and ?j = "nat ((int (k mod w) - dy) mod int w)"
  have i: "?i < h" using h by (simp add: nat_less_iff)
  have j: "?j < w" using w by (simp add: nat_less_iff)
  have "?i * w + ?j < (?i + 1) * w" using j by simp
  moreover have "?i + 1 \<le> h" using i by linarith
  then have "(?i + 1) * w \<le> h * w" by (rule mult_le_mono1)
  ultimately show ?thesis unfolding roll_source_def by (rule less_le_trans)
qed

lemma roll_source_inverse:
  assumes "k < h * w"
  shows "roll_source h w (- dx) (- dy) (roll_source h w dx dy k) = k"
proof -
  have w: "0 < w" and h: "0 < h" using assms by (cases w; cases h; simp)+
  let ?i = "nat ((int (k div w) - dx) mod int h)" and ?j = "nat ((int (k mod w) - dy) mod int w)"
  have j: "?j < w" using w by (simp add: nat_less_iff)
  have kd: "k div w < h" using assms w by (simp add: less_mult_imp_div_less)
  have dv: "(?i * w + ?j) div w = ?i" and md: "(?i * w + ?j) mod w = ?j"
    using j by simp_all
  have ii: "int ?i = (int (k div w) - dx) mod int h" using h by simp
  have jj: "int ?j = (int (k mod w) - dy) mod int w" using w by simp
  have "(int ?i - - dx) mod int h = ((int (k div w) - dx) mod int h + dx) mod int h"
    unfolding ii by simp
  also have "\<dots> = (int (k div w) - dx + dx) mod int h"
    by (rule mod_add_left_eq)
  also have "\<dots> = int (k div w)" using kd by simp
  finally have a: "nat ((int ?i - - dx) mod int h) = k div w" by simp
  have "(int ?j - - dy) mod int w = ((int (k mod w) - dy) mod int w + dy) mod int w"
    unfolding jj by simp
  also have "\<dots> = (int (k mod w) - dy + dy) mod int w"
    by (rule mod_add_left_eq)
  also have "\<dots> = int (k mod w)" using w by simp
  finally have b: "nat ((int ?j - - dy) mod int w) = k mod w" by simp
  have "roll_source h w (- dx) (- dy) (?i * w + ?j) = k div w * w + k mod w"
    unfolding roll_source_def [of h w "- dx" "- dy"] dv md a b ..
  then show ?thesis
    unfolding roll_source_def [of h w dx dy] by simp
qed

lemma roll_source_bij: "bij_betw (roll_source h w dx dy) {..<h * w} {..<h * w}"
proof (rule bij_betw_byWitness [where f' = "roll_source h w (- dx) (- dy)"])
  show "\<forall>a\<in>{..<h * w}. roll_source h w (- dx) (- dy) (roll_source h w dx dy a) = a"
    by (simp add: roll_source_inverse)
  show "\<forall>a'\<in>{..<h * w}. roll_source h w dx dy (roll_source h w (- dx) (- dy) a') = a'"
    using roll_source_inverse [of _ h w "- dx" "- dy"] by simp
  show "roll_source h w dx dy ` {..<h * w} \<subseteq> {..<h * w}"
    by (auto simp: roll_source_less)
  show "roll_source h w (- dx) (- dy) ` {..<h * w} \<subseteq> {..<h * w}"
    by (auto simp: roll_source_less)
qed

lemma flatten_roll:
  "flatten (np_roll a dx dy)
     = map (\<lambda>k. pixels a ! roll_source (rows a) (cols a) dx dy k) [0..<rows a * cols a]"
  by (simp add: flatten_def np_roll_def roll_source_def)

lemma sum_list_roll:
  fixes f :: "real \<Rightarrow> real"
  assumes wf: "wf_image a"
  shows "sum_list (map f (flatten (np_roll a dx dy))) = sum_list (map f (pixels a))"
proof -
  let ?n = "rows a * cols a"
  let ?s = "roll_source (rows a) (cols a) dx dy"
  have len: "length (pixels a) = ?n" using wf by (simp add: wf_image_def)
  have "sum_list (map f (flatten (np_roll a dx dy)))
          = sum_list (map (\<lambda>k. f (pixels a ! ?s k)) [0..<?n])"
    by (simp add: flatten_roll comp_def)
  also have "\<dots> = (\<Sum>k\<in>{..<?n}. f (pixels a ! ?s k))"
    by (simp add: interv_sum_list_conv_sum_set_nat atLeast0LessThan)
  also have "\<dots> = (\<Sum>k\<in>{..<?n}. f (pixels a ! k))"
    by (rule sum.reindex_bij_betw [OF roll_source_bij])
  also have "\<dots> = sum_list (map f (pixels a))"
    by (simp add: sum_list_map_nth len)
  finally show ?thesis .
qed

lemma length_flatten_roll: "length (flatten (np_roll a dx dy)) = rows a * cols a"
  by (simp add: flatten_roll)

lemma list_mean_roll:
  assumes wf: "wf_image a"
  shows "list_mean (flatten (np_roll a dx dy)) = list_mean (pixels a)"
proof -
  have "sum_list (map (\<lambda>v. v) (flatten (np_roll a dx dy))) = sum_list (map (\<lambda>v. v) (pixels a))"
    using wf by (rule sum_list_roll)
  then show ?thesis
    using wf by (simp add: list_mean_def length_flatten_roll wf_image_def)
qed

lemma dev_sum_roll:
  assumes wf: "wf_image a"
  shows "dev_sum (flatten (np_roll a dx dy)) = dev_sum (pixels a)"
  unfolding dev_sum_def list_mean_roll [OF wf] using wf by (rule sum_list_roll)

lemma cov_sum_roll:
  assumes wf: "wf_image a"
  shows "cov_sum (pixels a) (flatten (np_roll a dx dy))
           = (\<Sum>k<rows a * cols a.
                (pixels a ! k - list_mean (pixels a)) *
                (pixels a ! roll_source (rows a) (cols a) dx dy k - list_mean (pixels a)))"
proof -
  let ?n = "rows a * cols a"
  have len: "length (pixels a) = length (flatten (np_roll a dx dy))"
    using wf by (simp add: length_flatten_roll wf_image_def)
  have n: "length (pixels a) = ?n" using wf by (simp add: wf_image_def)
  have "cov_sum (pixels a) (flatten (np_roll a dx dy))
          = (\<Sum>k<length (pixels a).
               (pixels a ! k - list_mean (pixels a)) *
               (flatten (np_roll a dx dy) ! k - list_mean (pixels a)))"
    unfolding cov_sum_def list_mean_roll [OF wf] using len by (rule sum_list_map2_nth)
  also have "\<dots> = (\<Sum>k<?n.
                (pixels a ! k - list_mean (pixels a)) *
                (pixels a ! roll_source (rows a) (cols a) dx dy k - list_mean (pixels a)))"
    unfolding n by (intro sum.cong) (simp_all add: flatten_roll)
  finally show ?thesis .
qed

lemma cov_sum_roll_neg:
  assumes wf: "wf_image a"
  shows "cov_sum (pixels a) (flatten (np_roll a dx dy))
           = cov_sum (pixels a) (flatten (np_roll a (- dx) (- dy)))"
proof -
  let ?n = "rows a * cols a" and ?mu = "list_mean (pixels a)"
  let ?s = "roll_source (rows a) (cols a) dx dy"
  let ?t = "roll_source (rows a) (cols a) (- dx) (- dy)"
  let ?g = "\<lambda>k. (pixels a ! k - ?mu) * (pixels a ! ?t k - ?mu)"
  have "cov_sum (pixels a) (flatten (np_roll a dx dy))
          = (\<Sum>k\<in>{..<?n}. (pixels a ! k - ?mu) * (pixels a ! ?s k - ?mu))"
    using wf by (rule cov_sum_roll)
  also have "\<dots> = (\<Sum>k\<in>{..<?n}. ?g (?s k))"
    by (intro sum.cong) (simp_all add: roll_source_inverse mult.commute)
  also have "\<dots> = (\<Sum>k\<in>{..<?n}. ?g k)"
    by (rule sum.reindex_bij_betw [OF roll_source_bij])
  also have "\<dots> = cov_sum (pixels a) (flatten (np_roll a (- dx) (- dy)))"
    using cov_sum_roll [OF wf, of "- dx" "- dy"] by simp
  finally show ?thesis .
qed

lemma heat_value_neg:
  assumes wf: "wf_image a"
  shows "heat_value Fin a dx dy = heat_value Fin a (- dx) (- dy)"
  by (simp add: heat_value_def corr_real flatten_def [of a] cov_sum_roll_neg [OF wf, of dx dy]
        dev_sum_roll [OF wf])

lemma heat_value_range:
  assumes wf: "wf_image a" and nc: "\<not> is_constant (pixels a)"
  shows "\<exists>v. heat_value Fin a dx dy = Fin v \<and> - 1 \<le> v \<and> v \<le> 1"
proof (cases "dx = 0 \<and> dy = 0")
  case True
  then show ?thesis by (simp add: heat_value_def)
next
  case False
  let ?x = "pixels a" and ?y = "flatten (np_roll a dx dy)"
  have S: "0 < dev_sum ?x"
    unfolding dev_sum_def using nc by (rule not_constant_sum_pos)
  have Sy: "dev_sum ?y = dev_sum ?x" using wf by (rule dev_sum_roll)
  have len: "length ?x = length ?y"
    using wf by (simp add: length_flatten_roll wf_image_def)
  have "(cov_sum ?x ?y)\<^sup>2 \<le> dev_sum ?x * dev_sum ?y"
    unfolding cov_sum_def dev_sum_def using len by (rule cauchy_schwarz_list)
  then have "(cov_sum ?x ?y)\<^sup>2 \<le> (dev_sum ?x)\<^sup>2"
    by (simp add: Sy power2_eq_square)
  then have ab: "\<bar>cov_sum ?x ?y\<bar> \<le> dev_sum ?x"
    using S by (simp add: abs_le_square_iff [symmetric])
  have D: "sqrt (dev_sum ?x) * sqrt (dev_sum ?y) = dev_sum ?x"
    using S by (simp add: Sy)
  have "corr Fin ?x ?y = Fin (cov_sum ?x ?y / dev_sum ?x)"
    using S by (simp add: corr_real D)
  moreover have "\<bar>cov_sum ?x ?y / dev_sum ?x\<bar> \<le> 1"
    using ab S by simp
  then have "- 1 \<le> cov_sum ?x ?y / dev_sum ?x" "cov_sum ?x ?y / dev_sum ?x \<le> 1"
    by linarith+
  ultimately have "\<exists>v. corr Fin ?x ?y = Fin v \<and> - 1 \<le> v \<and> v \<le> 1"
    by blast
  then show ?thesis
    using False by (simp add: heat_value_def flatten_def [of a])
qed

lemma heatmap_shape:
  assumes "0 \<le> m" and "spatial_correlation_heatmap rnd img m = Inr H"
  shows "shape H = [nat (2 * m + 1), nat (2 * m + 1)]"
    and "length (data H) = nat (2 * m + 1) * nat (2 * m + 1)"
proof -
  have H: "H = \<lparr>shape = [nat (2 * m + 1), nat (2 * m + 1)],
                data = foldl (\<lambda>h (dx, dy). h[nat (dx + m) * nat (2 * m + 1) + nat (dy + m)
                                              := heat_value rnd img dx dy])
                         (replicate (nat (2 * m + 1) * nat (2 * m + 1)) (Fin 0))
                         (List.product [- m..m] [- m..m])\<rparr>"
    using assms heatmap_data [of m rnd img] by simp
  show "shape H = [nat (2 * m + 1), nat (2 * m + 1)]"
    by (subst H) simp
  have "length (foldl (\<lambda>h k. h[(\<lambda>(dx, dy). nat (dx + m) * nat (2 * m + 1) + nat (dy + m)) k
                                 := (\<lambda>(dx, dy). heat_value rnd img dx dy) k])
                  (replicate (nat (2 * m + 1) * nat (2 * m + 1)) (Fin 0))
                  (List.product [- m..m] [- m..m]))
          = length (replicate (nat (2 * m + 1) * nat (2 * m + 1)) (Fin 0 :: pyfloat))"
    by (rule length_foldl_update)
  then show "length (data H) = nat (2 * m + 1) * nat (2 * m + 1)"
    by (subst H) (simp add: case_prod_unfold)
qed

lemma heatmap_returns:
  assumes "0 \<le> m"
  shows "\<exists>H. spatial_correlation_heatmap rnd img m = Inr H"
  using heatmap_data [OF assms] by blast

section \<open>Evaluating the rounding to double precision\<close>

lemma round_half_even_near:
  fixes q :: nat
  assumes "real q - 1 / 2 < y" and "y < real q + 1 / 2"
  shows "round_half_even y = q"
proof (cases "y < real q")
  case True
  show ?thesis
  proof (cases "q = 0")
    case True
    then have "\<lfloor>y\<rfloor> \<le> 0" using \<open>y < real q\<close> by (simp add: floor_le_iff)
    then have "nat \<lfloor>y\<rfloor> = 0" by simp
    then show ?thesis
      using True assms by (simp add: round_half_even_def Let_def)
  next
    case False
    then have "\<lfloor>y\<rfloor> = int q - 1"
      using True assms by (intro floor_unique) (auto simp: of_nat_diff)
    then have f: "nat \<lfloor>y\<rfloor> = q - 1" by simp
    have "real (q - 1) = real q - 1" using False by (simp add: of_nat_diff)
    then show ?thesis
      using False assms unfolding round_half_even_def Let_def f by simp
  qed
next
  case False
  then have "\<lfloor>y\<rfloor> = int q"
    using assms by (intro floor_unique) auto
  then have f: "nat \<lfloor>y\<rfloor> = q" by simp
  show ?thesis
    using False assms unfolding round_half_even_def Let_def f by simp
qed

lemma round_half_even_le:
  assumes "0 \<le> y" and "y < real (n :: nat)"
  shows "round_half_even y \<le> n"
proof -
  have "\<lfloor>y\<rfloor> < int n" using assms by (simp add: floor_less_iff)
  then have "nat \<lfloor>y\<rfloor> < n" using assms by simp
  then show ?thesis
    by (simp add: round_half_even_def Let_def)
qed

lemma double_eval:
  fixes k :: nat
  assumes lo: "2 ^ 52 \<le> \<bar>x\<bar> * 2 ^ k" and hi: "\<bar>x\<bar> * 2 ^ k < 2 ^ 53" and k: "k \<le> 1074"
  shows "double x = Fin (sgn x * real (round_half_even (\<bar>x\<bar> * 2 ^ k)) / 2 ^ k)"
proof -
  have x0: "x \<noteq> 0" using lo by auto
  then have ax: "0 < \<bar>x\<bar>" by simp
  have kpos: "(0::real) < 2 ^ k" by simp
  have p1: "2 powr real_of_int (52 - int k) = 2 ^ 52 / 2 ^ k"
  proof -
    have "real_of_int (52 - int k) = real 52 - real k" by simp
    then show ?thesis by (simp only: powr_diff powr_realpow zero_less_numeral)
  qed
  have p2: "2 powr real_of_int (52 - int k + 1) = 2 ^ 53 / 2 ^ k"
  proof -
    have "real_of_int (52 - int k + 1) = real 53 - real k" by simp
    then show ?thesis by (simp only: powr_diff powr_realpow zero_less_numeral)
  qed
  have "2 ^ 52 / 2 ^ k \<le> \<bar>x\<bar>"
    using lo kpos by (simp only: pos_divide_le_eq)
  moreover have "\<bar>x\<bar> < 2 ^ 53 / 2 ^ k"
    using hi kpos by (simp only: pos_less_divide_eq)
  ultimately have "2 powr real_of_int (52 - int k) \<le> \<bar>x\<bar>
                   \<and> \<bar>x\<bar> < 2 powr real_of_int (52 - int k + 1)"
    by (simp only: p1 p2)
  then have fl: "\<lfloor>log 2 \<bar>x\<bar>\<rfloor> = 52 - int k"
    using ax by (subst floor_log_eq_powr_iff) simp_all
  have e: "max \<lfloor>log 2 \<bar>x\<bar>\<rfloor> (- 1022) = 52 - int k"
    unfolding fl using k by simp
  have ulp: "2 powr (real_of_int (52 - int k) - 52) = 1 / 2 ^ k"
  proof -
    have "real_of_int (52 - int k) - 52 = - real k" by simp
    then show ?thesis by (simp only: powr_minus_divide powr_realpow zero_less_numeral)
  qed
  let ?q = "round_half_even (\<bar>x\<bar> * 2 ^ k)"
  have "0 \<le> \<bar>x\<bar> * 2 ^ k" by simp
  moreover have "\<bar>x\<bar> * 2 ^ k < real (2 ^ 53 :: nat)" using hi by simp
  ultimately have "?q \<le> 2 ^ 53" by (rule round_half_even_le)
  then have "real ?q \<le> real (2 ^ 53 :: nat)" by (rule of_nat_mono)
  then have qb: "real ?q \<le> 2 ^ 53" by simp
  have "real ?q / 2 ^ k \<le> real ?q / 1"
    by (rule divide_left_mono) simp_all
  then have "real ?q / 2 ^ k \<le> 2 ^ 53" using qb by simp
  moreover have "(2::real) ^ 53 < 2 ^ 1024" by simp
  ultimately have small: "real ?q / 2 ^ k < 2 ^ 1024" by (rule le_less_trans)
  have abs: "\<bar>sgn x * real ?q * (1 / 2 ^ k)\<bar> = real ?q / 2 ^ k"
    by (simp add: abs_mult abs_sgn_eq x0)
  have pw: "(2::real) powr 1024 = 2 ^ 1024"
    using powr_realpow [of 2 1024] by simp
  have no: "\<not> 2 powr 1024 \<le> \<bar>sgn x * real ?q * (1 / 2 ^ k)\<bar>"
    unfolding abs pw using small by (simp only: not_le)
  have "double x = Fin (sgn x * real ?q * (1 / 2 ^ k))"
    unfolding double_def Let_def e
    by (simp only: ulp x0 if_False no div_by_1 divide_divide_eq_right mult_1)
  then show ?thesis by simp
qed

lemma double_sqrt_eval:
  fixes q k :: nat
  assumes q: "2 ^ 52 < q" "q < 2 ^ 53" and k: "k \<le> 1074"
    and lo: "(2 * real q - 1)\<^sup>2 < 4 * a * 4 ^ k" and hi: "4 * a * 4 ^ k < (2 * real q + 1)\<^sup>2"
  shows "double (sqrt a) = Fin (real q / 2 ^ k)"
proof -
  have qr: "2 ^ 52 + 1 \<le> real q" "real q + 1 \<le> 2 ^ 53"
  proof -
    have "2 ^ 52 + 1 \<le> q" "q + 1 \<le> 2 ^ 53" using q by simp_all
    then have "real (2 ^ 52 + 1) \<le> real q" "real (q + 1) \<le> real (2 ^ 53)"
      by (simp_all only: of_nat_le_iff)
    then show "2 ^ 52 + 1 \<le> real q" "real q + 1 \<le> 2 ^ 53"
      by simp_all
  qed
  have apos: "0 < a"
  proof -
    have "0 \<le> (2 * real q - 1)\<^sup>2" by simp
    then have "0 < 4 * a * 4 ^ k" using lo by linarith
    then show ?thesis by (simp add: zero_less_mult_iff)
  qed
  let ?s = "sqrt a * 2 ^ k"
  have sq: "(2 * ?s)\<^sup>2 = 4 * a * 4 ^ k"
  proof -
    have "(2 * ?s)\<^sup>2 = 4 * (sqrt a)\<^sup>2 * (2 ^ k)\<^sup>2" by (simp add: power_mult_distrib)
    also have "(sqrt a)\<^sup>2 = a" using apos by simp
    also have "((2::real) ^ k)\<^sup>2 = 4 ^ k"
      by (simp add: power_even_eq [symmetric] power_mult [symmetric] mult.commute
            power2_eq_square power_mult_distrib [symmetric])
    finally show ?thesis .
  qed
  have spos: "0 < ?s" using apos by simp
  have l: "2 * real q - 1 < 2 * ?s"
  proof (rule power2_less_imp_less)
    show "(2 * real q - 1)\<^sup>2 < (2 * ?s)\<^sup>2" unfolding sq by (rule lo)
    show "0 \<le> 2 * ?s" using spos by simp
  qed
  have h: "2 * ?s < 2 * real q + 1"
  proof (rule power2_less_imp_less)
    show "(2 * ?s)\<^sup>2 < (2 * real q + 1)\<^sup>2" unfolding sq by (rule hi)
    show "0 \<le> 2 * real q + 1" by simp
  qed
  have near: "real q - 1 / 2 < ?s" "?s < real q + 1 / 2" using l h by linarith+
  have r: "round_half_even ?s = q" using near by (rule round_half_even_near)
  have b: "2 ^ 52 \<le> \<bar>sqrt a\<bar> * 2 ^ k" "\<bar>sqrt a\<bar> * 2 ^ k < 2 ^ 53"
    using near qr apos by simp_all
  have "double (sqrt a) = Fin (sgn (sqrt a) * real (round_half_even (\<bar>sqrt a\<bar> * 2 ^ k)) / 2 ^ k)"
    using b k by (rule double_eval)
  then show ?thesis using apos r by simp
qed

section \<open>The heat map in exact and in double-precision arithmetic\<close>

text \<open>
  The sums of four and of nine numbers, in the order in which numpy adds them, and the
  entries of the heat map read off the returned array.
\<close>

lemma pairwise_sum_4:
  "pairwise_sum rnd [a0, a1, a2, a3]
     = r_add rnd (r_add rnd (r_add rnd (r_add rnd (Fin 0) a0) a1) a2) a3"
  by (subst pairwise_sum.simps) simp

lemma pairwise_sum_9:
  "pairwise_sum rnd [a0, a1, a2, a3, a4, a5, a6, a7, a8]
     = r_add rnd
         (r_add rnd (r_add rnd (r_add rnd a0 a1) (r_add rnd a2 a3))
                    (r_add rnd (r_add rnd a4 a5) (r_add rnd a6 a7)))
         a8"
proof -
  have b: "add_blocks rnd [a0, a1, a2, a3, a4, a5, a6, a7] [] = [a0, a1, a2, a3, a4, a5, a6, a7]"
    by (subst add_blocks.simps) simp
  show ?thesis
    by (subst pairwise_sum.simps) (simp add: Let_def b)
qed

lemma heatmap_not_error:
  "0 \<le> m \<Longrightarrow> \<not> isl (spatial_correlation_heatmap rnd img m)"
  using heatmap_returns [of m rnd img] by auto

lemma heatmap_entry_projr:
  assumes "0 \<le> m" "- m \<le> dx" "dx \<le> m" "- m \<le> dy" "dy \<le> m"
  shows "heatmap_at (projr (spatial_correlation_heatmap rnd img m)) (m + dx) (m + dy)
           = heat_value rnd img dx dy"
proof -
  obtain H where H: "spatial_correlation_heatmap rnd img m = Inr H"
    using heatmap_returns [OF assms(1)] by blast
  show ?thesis
    using heatmap_entry [OF assms H] by (simp add: H)
qed

lemma upt9: "[0..<9] = [0, 1, 2, 3, 4, 5, 6, 7, 8]"
  by (simp add: upt_conv_Cons numeral_eq_Suc)

lemma upt4: "[0..<4] = [0, 1, 2, 3]"
  by (simp add: upt_conv_Cons numeral_eq_Suc)

text \<open>
  In exact arithmetic the deviations of a constant image from its mean are all zero, and
  every entry of its heat map other than the centre is \<open>0 / 0\<close>.
\<close>

lemma constant_list_mean:
  assumes "is_constant xs" and "a \<in> set xs"
  shows "a = list_mean xs"
proof -
  have all: "\<forall>v\<in>set xs. v = hd xs"
    using assms(1) by (simp add: is_constant_def list_all_iff)
  then have "map (\<lambda>v. v) xs = map (\<lambda>v. hd xs) xs"
    by (intro map_cong) simp_all
  then have "sum_list xs = sum_list (map (\<lambda>v. hd xs) xs)"
    by simp
  also have "\<dots> = real (length xs) * hd xs"
    by (simp add: sum_list_const_mult sum_list_triv)
  finally have s: "sum_list xs = real (length xs) * hd xs" .
  have "xs \<noteq> []" using assms(2) by auto
  then have "list_mean xs = hd xs"
    by (simp add: list_mean_def s)
  then show ?thesis using all assms(2) by simp
qed

lemma sum_list_all_zero: "(\<forall>x\<in>set xs. f x = 0) \<Longrightarrow> sum_list (map f xs) = (0 :: real)"
  by (induction xs) auto

lemma constant_dev_sum: "is_constant xs \<Longrightarrow> dev_sum xs = 0"
  unfolding dev_sum_def using constant_list_mean [of xs]
  by (intro sum_list_all_zero) auto

lemma constant_cov_sum: "is_constant xs \<Longrightarrow> cov_sum xs ys = 0"
  unfolding cov_sum_def using constant_list_mean [of xs]
  by (intro sum_list_all_zero) (auto dest: set_zip_leftD)

lemma heat_value_constant:
  assumes "is_constant (pixels a)" and "dx \<noteq> 0 \<or> dy \<noteq> 0"
  shows "heat_value Fin a dx dy = NaN"
  using assms
  by (simp add: heat_value_def corr_real flatten_def [of a] constant_dev_sum constant_cov_sum)

text \<open>
  Claim C4. For a 2-D image and \<open>max_distance \<ge> 1\<close>, \<open>spatial_correlation_heatmap\<close> returns a
  square array of side \<open>2 * max_distance + 1\<close> whose centre entry is exactly 1, whatever the
  rounding of the arithmetic: the centre is assigned, not computed. In exact arithmetic,
  for all offsets \<open>(dx, dy)\<close> in \<open>[-max_distance, max_distance]\<^sup>2\<close>: if the image is not
  constant, the entries at the offsets \<open>(dx, dy)\<close> and \<open>(-dx, -dy)\<close> are the same finite
  number; if the image is constant, both are \<open>nan\<close> (the centre apart), and Python compares
  a \<open>nan\<close> unequal to every number, itself included. In double precision the two entries
  of an image that is not constant are sums of the same products added in two different
  orders, and they need not be equal: see the theorem after the next.
\<close>

theorem heatmap_centre_exact_symmetry:
  assumes wf: "wf_image img" and m: "1 \<le> m"
  shows "(\<exists>H. spatial_correlation_heatmap rnd img m = Inr H
              \<and> shape H = [nat (2 * m + 1), nat (2 * m + 1)]
              \<and> heatmap_at H m m = Fin 1)
       \<and> (\<exists>H. spatial_correlation_heatmap Fin img m = Inr H
              \<and> (\<forall>dx dy. - m \<le> dx \<and> dx \<le> m \<and> - m \<le> dy \<and> dy \<le> m \<longrightarrow>
                     (\<not> is_constant (pixels img) \<longrightarrow>
                        (\<exists>v. heatmap_at H (m + dx) (m + dy) = Fin v
                            \<and> heatmap_at H (m - dx) (m - dy) = Fin v))
                   \<and> (is_constant (pixels img) \<and> (dx \<noteq> 0 \<or> dy \<noteq> 0) \<longrightarrow>
                        heatmap_at H (m + dx) (m + dy) = NaN
                      \<and> heatmap_at H (m - dx) (m - dy) = NaN)))"
proof
  have m0: "0 \<le> m" using m by simp
  obtain H where H: "spatial_correlation_heatmap rnd img m = Inr H"
    using heatmap_returns [OF m0] by blast
  have "heatmap_at H (m + 0) (m + 0) = heat_value rnd img 0 0"
    using m0 by (intro heatmap_entry [OF _ _ _ _ _ H]) simp_all
  then have centre: "heatmap_at H m m = Fin 1"
    by (simp add: heat_value_def)
  show "\<exists>H. spatial_correlation_heatmap rnd img m = Inr H
              \<and> shape H = [nat (2 * m + 1), nat (2 * m + 1)]
              \<and> heatmap_at H m m = Fin 1"
    using H heatmap_shape(1) [OF m0 H] centre by blast
next
  have m0: "0 \<le> m" using m by simp
  obtain H where H: "spatial_correlation_heatmap Fin img m = Inr H"
    using heatmap_returns [OF m0] by blast
  have sym: "(\<not> is_constant (pixels img) \<longrightarrow>
                (\<exists>v. heatmap_at H (m + dx) (m + dy) = Fin v
                    \<and> heatmap_at H (m - dx) (m - dy) = Fin v))
           \<and> (is_constant (pixels img) \<and> (dx \<noteq> 0 \<or> dy \<noteq> 0) \<longrightarrow>
                heatmap_at H (m + dx) (m + dy) = NaN
              \<and> heatmap_at H (m - dx) (m - dy) = NaN)"
    if r: "- m \<le> dx \<and> dx \<le> m \<and> - m \<le> dy \<and> dy \<le> m" for dx dy
  proof -
    have p: "heatmap_at H (m + dx) (m + dy) = heat_value Fin img dx dy"
      using m0 r by (intro heatmap_entry [OF _ _ _ _ _ H]) simp_all
    have "heatmap_at H (m + - dx) (m + - dy) = heat_value Fin img (- dx) (- dy)"
      using m0 r by (intro heatmap_entry [OF _ _ _ _ _ H]) simp_all
    then have q: "heatmap_at H (m - dx) (m - dy) = heat_value Fin img dx dy"
      using heat_value_neg [OF wf, of dx dy] by simp
    have "\<exists>v. heat_value Fin img dx dy = Fin v" if "\<not> is_constant (pixels img)"
      using heat_value_range [OF wf that, of dx dy] by blast
    moreover have "heat_value Fin img dx dy = NaN"
      if "is_constant (pixels img) \<and> (dx \<noteq> 0 \<or> dy \<noteq> 0)"
      using that heat_value_constant [of img dx dy] by simp
    ultimately show ?thesis
      unfolding p q by blast
  qed
  show "\<exists>H. spatial_correlation_heatmap Fin img m = Inr H
              \<and> (\<forall>dx dy. - m \<le> dx \<and> dx \<le> m \<and> - m \<le> dy \<and> dy \<le> m \<longrightarrow>
                     (\<not> is_constant (pixels img) \<longrightarrow>
                        (\<exists>v. heatmap_at H (m + dx) (m + dy) = Fin v
                            \<and> heatmap_at H (m - dx) (m - dy) = Fin v))
                   \<and> (is_constant (pixels img) \<and> (dx \<noteq> 0 \<or> dy \<noteq> 0) \<longrightarrow>
                        heatmap_at H (m + dx) (m + dy) = NaN
                      \<and> heatmap_at H (m - dx) (m - dy) = NaN))"
    using H sym by blast
qed

theorem heatmap_centre_exact_symmetry_witness:
  "(\<exists>H. spatial_correlation_heatmap double
            \<lparr>rows = 3, cols = 3, pixels = [1, 2, 3, 4, 5, 7, 1, 0, 2]\<rparr> 1 = Inr H
        \<and> shape H = [3, 3]
        \<and> heatmap_at H 1 1 = Fin 1)
   \<and> (\<exists>H. spatial_correlation_heatmap Fin
              \<lparr>rows = 3, cols = 3, pixels = [1, 2, 3, 4, 5, 7, 1, 0, 2]\<rparr> 1 = Inr H
          \<and> (\<forall>dx dy. - 1 \<le> dx \<and> dx \<le> 1 \<and> - 1 \<le> dy \<and> dy \<le> 1 \<longrightarrow>
                 (\<exists>v. heatmap_at H (1 + dx) (1 + dy) = Fin v
                     \<and> heatmap_at H (1 - dx) (1 - dy) = Fin v)))"
  using heatmap_centre_exact_symmetry
          [of "\<lparr>rows = 3, cols = 3, pixels = [1, 2, 3, 4, 5, 7, 1, 0, 2]\<rparr>" 1 double]
  by (simp add: wf_image_def is_constant_def)

text \<open>
  The symmetry fails in double precision. For the image \<open>[[1, 2, 3], [4, 5, 7], [1, 0, 2]]\<close>
  and \<open>max_distance = 1\<close> the entries at the offsets \<open>(-1, -1)\<close> and \<open>(1, 1)\<close> are
  \<open>-0.44101123595505604\<close> and \<open>-0.44101123595505615\<close>: two units in the last place apart.
  For the constant image \<open>[[1, 1], [1, 1]]\<close> the two entries are \<open>nan\<close>, and they are not
  equal in the sense of Python's \<open>==\<close>. Every operation of the correlations is evaluated
  below, each rounding justified by \<open>double_eval\<close> or \<open>double_sqrt_eval\<close>.
\<close>

theorem heatmap_symmetry_counterexample:
  "\<not> isl (spatial_correlation_heatmap double \<lparr>rows = 3, cols = 3, pixels = [1, 2, 3, 4, 5, 7, 1, 0, 2]\<rparr> 1)
   \<and> heatmap_at (projr (spatial_correlation_heatmap double \<lparr>rows = 3, cols = 3, pixels = [1, 2, 3, 4, 5, 7, 1, 0, 2]\<rparr> 1)) 0 0 = Fin (- (7944552151653569 / 18014398509481984))
   \<and> heatmap_at (projr (spatial_correlation_heatmap double \<lparr>rows = 3, cols = 3, pixels = [1, 2, 3, 4, 5, 7, 1, 0, 2]\<rparr> 1)) 2 2 = Fin (- (7944552151653571 / 18014398509481984))
   \<and> heatmap_at (projr (spatial_correlation_heatmap double \<lparr>rows = 3, cols = 3, pixels = [1, 2, 3, 4, 5, 7, 1, 0, 2]\<rparr> 1)) 0 0 \<noteq> heatmap_at (projr (spatial_correlation_heatmap double \<lparr>rows = 3, cols = 3, pixels = [1, 2, 3, 4, 5, 7, 1, 0, 2]\<rparr> 1)) 2 2
   \<and> \<not> isl (spatial_correlation_heatmap double \<lparr>rows = 2, cols = 2, pixels = [1, 1, 1, 1]\<rparr> 1)
   \<and> heatmap_at (projr (spatial_correlation_heatmap double \<lparr>rows = 2, cols = 2, pixels = [1, 1, 1, 1]\<rparr> 1)) 0 0 = NaN
   \<and> heatmap_at (projr (spatial_correlation_heatmap double \<lparr>rows = 2, cols = 2, pixels = [1, 1, 1, 1]\<rparr> 1)) 2 2 = NaN
   \<and> \<not> pf_eq (heatmap_at (projr (spatial_correlation_heatmap double \<lparr>rows = 2, cols = 2, pixels = [1, 1, 1, 1]\<rparr> 1)) 0 0) (heatmap_at (projr (spatial_correlation_heatmap double \<lparr>rows = 2, cols = 2, pixels = [1, 1, 1, 1]\<rparr> 1)) 2 2)"
proof -
  let ?img = "\<lparr>rows = 3, cols = 3, pixels = [1, 2, 3, 4, 5, 7, 1, 0, 2]\<rparr>"
  have ra: "flatten (np_roll ?img (- 1) (- 1)) = [5, 7, 4, 0, 2, 1, 2, 3, 1]"
    by (simp add: flatten_def np_roll_def upt9)
  have rb: "flatten (np_roll ?img 1 1) = [2, 1, 0, 3, 1, 2, 7, 4, 5]"
    by (simp add: flatten_def np_roll_def upt9)
  have e1: "r_add double (Fin 1) (Fin 2) = Fin 3"
    using double_eval [of "3" 51] by (simp add: r_add_def rounded_def round_half_even_def)
  have e2: "r_add double (Fin 3) (Fin 4) = Fin 7"
    using double_eval [of "7" 50] by (simp add: r_add_def rounded_def round_half_even_def)
  have e3: "r_add double (Fin 3) (Fin 7) = Fin 10"
    using double_eval [of "10" 49] by (simp add: r_add_def rounded_def round_half_even_def)
  have e4: "r_add double (Fin 5) (Fin 7) = Fin 12"
    using double_eval [of "12" 49] by (simp add: r_add_def rounded_def round_half_even_def)
  have e5: "r_add double (Fin 1) (Fin 0) = Fin 1"
    using double_eval [of "1" 52] by (simp add: r_add_def rounded_def round_half_even_def)
  have e6: "r_add double (Fin 12) (Fin 1) = Fin 13"
    using double_eval [of "13" 49] by (simp add: r_add_def rounded_def round_half_even_def)
  have e7: "r_add double (Fin 10) (Fin 13) = Fin 23"
    using double_eval [of "23" 48] by (simp add: r_add_def rounded_def round_half_even_def)
  have e8: "r_add double (Fin 23) (Fin 2) = Fin 25"
    using double_eval [of "25" 48] by (simp add: r_add_def rounded_def round_half_even_def)
  have e9: "r_add double (Fin 0) (Fin 25) = Fin 25"
    using double_eval [of "25" 48] by (simp add: r_add_def rounded_def round_half_even_def)
  have e10: "r_div double (Fin 25) (Fin 9) = Fin (3127499741229511 / 1125899906842624)"
    using double_eval [of "25 / 9" 51] by (simp add: r_div_def rounded_def round_half_even_def)
  have e11: "r_add double (Fin 4) (Fin 0) = Fin 4"
    using double_eval [of "4" 50] by (simp add: r_add_def rounded_def round_half_even_def)
  have e12: "r_add double (Fin 12) (Fin 4) = Fin 16"
    using double_eval [of "16" 48] by (simp add: r_add_def rounded_def round_half_even_def)
  have e13: "r_add double (Fin 2) (Fin 1) = Fin 3"
    using double_eval [of "3" 51] by (simp add: r_add_def rounded_def round_half_even_def)
  have e14: "r_add double (Fin 2) (Fin 3) = Fin 5"
    using double_eval [of "5" 50] by (simp add: r_add_def rounded_def round_half_even_def)
  have e15: "r_add double (Fin 3) (Fin 5) = Fin 8"
    using double_eval [of "8" 49] by (simp add: r_add_def rounded_def round_half_even_def)
  have e16: "r_add double (Fin 16) (Fin 8) = Fin 24"
    using double_eval [of "24" 48] by (simp add: r_add_def rounded_def round_half_even_def)
  have e17: "r_add double (Fin 24) (Fin 1) = Fin 25"
    using double_eval [of "25" 48] by (simp add: r_add_def rounded_def round_half_even_def)
  have e18: "r_sub double (Fin 1) (Fin (3127499741229511 / 1125899906842624)) = Fin (- (2001599834386887 / 1125899906842624))"
    using double_eval [of "- (2001599834386887 / 1125899906842624)" 52] by (simp add: r_sub_def rounded_def round_half_even_def pf_sub_def)
  have e19: "r_sub double (Fin 2) (Fin (3127499741229511 / 1125899906842624)) = Fin (- (875699927544263 / 1125899906842624))"
    using double_eval [of "- (875699927544263 / 1125899906842624)" 53] by (simp add: r_sub_def rounded_def round_half_even_def pf_sub_def)
  have e20: "r_sub double (Fin 3) (Fin (3127499741229511 / 1125899906842624)) = Fin (250199979298361 / 1125899906842624)"
    using double_eval [of "250199979298361 / 1125899906842624" 55] by (simp add: r_sub_def rounded_def round_half_even_def pf_sub_def)
  have e21: "r_sub double (Fin 4) (Fin (3127499741229511 / 1125899906842624)) = Fin (1376099886140985 / 1125899906842624)"
    using double_eval [of "1376099886140985 / 1125899906842624" 52] by (simp add: r_sub_def rounded_def round_half_even_def pf_sub_def)
  have e22: "r_sub double (Fin 5) (Fin (3127499741229511 / 1125899906842624)) = Fin (2501999792983609 / 1125899906842624)"
    using double_eval [of "2501999792983609 / 1125899906842624" 51] by (simp add: r_sub_def rounded_def round_half_even_def pf_sub_def)
  have e23: "r_sub double (Fin 7) (Fin (3127499741229511 / 1125899906842624)) = Fin (4753799606668857 / 1125899906842624)"
    using double_eval [of "4753799606668857 / 1125899906842624" 50] by (simp add: r_sub_def rounded_def round_half_even_def pf_sub_def)
  have e24: "r_sub double (Fin 0) (Fin (3127499741229511 / 1125899906842624)) = Fin (- (3127499741229511 / 1125899906842624))"
    using double_eval [of "- (3127499741229511 / 1125899906842624)" 51] by (simp add: r_sub_def rounded_def round_half_even_def pf_sub_def)
  have e25: "r_mul double (Fin (- (2001599834386887 / 1125899906842624))) (Fin (2501999792983609 / 1125899906842624)) = Fin (- (1111999907992715 / 281474976710656))"
    using double_eval [of "- (5008002371272017333028955535183 / 1267650600228229401496703205376)" 51] by (simp add: r_mul_def rounded_def round_half_even_def)
  have e26: "r_mul double (Fin (- (875699927544263 / 1125899906842624))) (Fin (4753799606668857 / 1125899906842624)) = Fin (- (3697399694075777 / 1125899906842624))"
    using double_eval [of "- (4162901971119864023397851117391 / 1267650600228229401496703205376)" 51] by (simp add: r_mul_def rounded_def round_half_even_def)
  have e27: "r_mul double (Fin (250199979298361 / 1125899906842624)) (Fin (1376099886140985 / 1125899906842624)) = Fin (4892799595167949 / 18014398509481984)"
    using double_eval [of "344300163024951376168225425585 / 1267650600228229401496703205376" 54] by (simp add: r_mul_def rounded_def round_half_even_def)
  have e28: "r_mul double (Fin (1376099886140985 / 1125899906842624)) (Fin (- (3127499741229511 / 1125899906842624))) = Fin (- (1911249841862479 / 562949953421312))"
    using double_eval [of "- (4303752037811890137952988608335 / 1267650600228229401496703205376)" 51] by (simp add: r_mul_def rounded_def round_half_even_def)
  have e29: "r_mul double (Fin (2501999792983609 / 1125899906842624)) (Fin (- (875699927544263 / 1125899906842624))) = Fin (- (7783999355949005 / 4503599627370496))"
    using double_eval [of "- (2191001037431507426825180985167 / 1267650600228229401496703205376)" 52] by (simp add: r_mul_def rounded_def round_half_even_def)
  have e30: "r_mul double (Fin (4753799606668857 / 1125899906842624)) (Fin (- (2001599834386887 / 1125899906842624))) = Fin (- (4225599650372317 / 562949953421312))"
    using double_eval [of "- (9515204505416832732595032078159 / 1267650600228229401496703205376)" 50] by (simp add: r_mul_def rounded_def round_half_even_def)
  have e31: "r_mul double (Fin (- (2001599834386887 / 1125899906842624))) (Fin (- (875699927544263 / 1125899906842624))) = Fin (6227199484759203 / 4503599627370496)"
    using double_eval [of "1752800829945205766320159279281 / 1267650600228229401496703205376" 52] by (simp add: r_mul_def rounded_def round_half_even_def)
  have e32: "r_mul double (Fin (- (3127499741229511 / 1125899906842624))) (Fin (250199979298361 / 1125899906842624)) = Fin (- (2779999769981789 / 4503599627370496))"
    using double_eval [of "- (782500370511253036673247131471 / 1267650600228229401496703205376)" 53] by (simp add: r_mul_def rounded_def round_half_even_def)
  have e33: "r_mul double (Fin (- (875699927544263 / 1125899906842624))) (Fin (- (2001599834386887 / 1125899906842624))) = Fin (6227199484759203 / 4503599627370496)"
    using double_eval [of "1752800829945205766320159279281 / 1267650600228229401496703205376" 52] by (simp add: r_mul_def rounded_def round_half_even_def)
  have e34: "r_add double (Fin (- (1111999907992715 / 281474976710656))) (Fin (- (3697399694075777 / 1125899906842624))) = Fin (- (8145399326046637 / 1125899906842624))"
    using double_eval [of "- (8145399326046637 / 1125899906842624)" 50] by (simp add: r_add_def rounded_def round_half_even_def)
  have e35: "r_add double (Fin (4892799595167949 / 18014398509481984)) (Fin (- (1911249841862479 / 562949953421312))) = Fin (- (3516699709026961 / 1125899906842624))"
    using double_eval [of "- (56267195344431379 / 18014398509481984)" 51] by (simp add: r_add_def rounded_def round_half_even_def)
  have e36: "r_add double (Fin (- (8145399326046637 / 1125899906842624))) (Fin (- (3516699709026961 / 1125899906842624))) = Fin (- (5831049517536799 / 562949953421312))"
    using double_eval [of "- (5831049517536799 / 562949953421312)" 49] by (simp add: r_add_def rounded_def round_half_even_def)
  have e37: "r_add double (Fin (- (7783999355949005 / 4503599627370496))) (Fin (- (4225599650372317 / 562949953421312))) = Fin (- (5198599569865943 / 562949953421312))"
    using double_eval [of "- (41588796558927541 / 4503599627370496)" 49] by (simp add: r_add_def rounded_def round_half_even_def)
  have e38: "r_add double (Fin (6227199484759203 / 4503599627370496)) (Fin (- (2779999769981789 / 4503599627370496))) = Fin (1723599857388707 / 2251799813685248)"
    using double_eval [of "1723599857388707 / 2251799813685248" 53] by (simp add: r_add_def rounded_def round_half_even_def)
  have e39: "r_add double (Fin (- (5198599569865943 / 562949953421312))) (Fin (1723599857388707 / 2251799813685248)) = Fin (- (2383849802759383 / 281474976710656))"
    using double_eval [of "- (19070798422075065 / 2251799813685248)" 49] by (simp add: r_add_def rounded_def round_half_even_def)
  have e40: "r_add double (Fin (- (5831049517536799 / 562949953421312))) (Fin (- (2383849802759383 / 281474976710656))) = Fin (- (2649687280763891 / 140737488355328))"
    using double_eval [of "- (10598749123055565 / 562949953421312)" 48] by (simp add: r_add_def rounded_def round_half_even_def)
  have e41: "r_add double (Fin (- (2649687280763891 / 140737488355328))) (Fin (6227199484759203 / 4503599627370496)) = Fin (- (1227543648432583 / 70368744177664))"
    using double_eval [of "- (78562793499685309 / 4503599627370496)" 48] by (simp add: r_add_def rounded_def round_half_even_def)
  have e42: "r_add double (Fin 0) (Fin (- (1227543648432583 / 70368744177664))) = Fin (- (1227543648432583 / 70368744177664))"
    using double_eval [of "- (1227543648432583 / 70368744177664)" 48] by (simp add: r_add_def rounded_def round_half_even_def)
  have e43: "r_mul double (Fin (- (2001599834386887 / 1125899906842624))) (Fin (- (2001599834386887 / 1125899906842624))) = Fin (222399981598543 / 70368744177664)"
    using double_eval [of "4006401897017613466103197550769 / 1267650600228229401496703205376" 51] by (simp add: r_mul_def rounded_def round_half_even_def)
  have e44: "r_mul double (Fin (- (875699927544263 / 1125899906842624))) (Fin (- (875699927544263 / 1125899906842624))) = Fin (2724399774582151 / 4503599627370496)"
    using double_eval [of "766850363101027468033824213169 / 1267650600228229401496703205376" 53] by (simp add: r_mul_def rounded_def round_half_even_def)
  have e45: "r_mul double (Fin (250199979298361 / 1125899906842624)) (Fin (250199979298361 / 1125899906842624)) = Fin (7116799411153383 / 144115188075855872)"
    using double_eval [of "62600029640900272957857286321 / 1267650600228229401496703205376" 57] by (simp add: r_mul_def rounded_def round_half_even_def)
  have e46: "r_mul double (Fin (1376099886140985 / 1125899906842624)) (Fin (1376099886140985 / 1125899906842624)) = Fin (6727599443355927 / 4503599627370496)"
    using double_eval [of "1893650896637231880875296770225 / 1267650600228229401496703205376" 52] by (simp add: r_mul_def rounded_def round_half_even_def)
  have e47: "r_mul double (Fin (2501999792983609 / 1125899906842624)) (Fin (2501999792983609 / 1125899906842624)) = Fin (694999942495447 / 140737488355328)"
    using double_eval [of "6260002964090022291786142664881 / 1267650600228229401496703205376" 50] by (simp add: r_mul_def rounded_def round_half_even_def)
  have e48: "r_mul double (Fin (4753799606668857 / 1125899906842624)) (Fin (4753799606668857 / 1125899906842624)) = Fin (5017899584817127 / 281474976710656)"
    using double_eval [of "22598610700364979522588053686449 / 1267650600228229401496703205376" 48] by (simp add: r_mul_def rounded_def round_half_even_def)
  have e49: "r_mul double (Fin (- (3127499741229511 / 1125899906842624))) (Fin (- (3127499741229511 / 1125899906842624))) = Fin (4343749640596543 / 562949953421312)"
    using double_eval [of "9781254631390658267165977299121 / 1267650600228229401496703205376" 50] by (simp add: r_mul_def rounded_def round_half_even_def)
  have e50: "r_add double (Fin (222399981598543 / 70368744177664)) (Fin (2724399774582151 / 4503599627370496)) = Fin (2119749824611113 / 562949953421312)"
    using double_eval [of "16957998596888903 / 4503599627370496" 51] by (simp add: r_add_def rounded_def round_half_even_def)
  have e51: "r_add double (Fin (7116799411153383 / 144115188075855872)) (Fin (6727599443355927 / 4503599627370496)) = Fin (3474999712477235 / 2251799813685248)"
    using double_eval [of "222399981598543047 / 144115188075855872" 52] by (simp add: r_add_def rounded_def round_half_even_def)
  have e52: "r_add double (Fin (2119749824611113 / 562949953421312)) (Fin (3474999712477235 / 2251799813685248)) = Fin (1494249876365211 / 281474976710656)"
    using double_eval [of "11953999010921687 / 2251799813685248" 50] by (simp add: r_add_def rounded_def round_half_even_def)
  have e53: "r_add double (Fin (694999942495447 / 140737488355328)) (Fin (5017899584817127 / 281474976710656)) = Fin (6407899469808021 / 281474976710656)"
    using double_eval [of "6407899469808021 / 281474976710656" 48] by (simp add: r_add_def rounded_def round_half_even_def)
  have e54: "r_add double (Fin (222399981598543 / 70368744177664)) (Fin (4343749640596543 / 562949953421312)) = Fin (6122949493384887 / 562949953421312)"
    using double_eval [of "6122949493384887 / 562949953421312" 49] by (simp add: r_add_def rounded_def round_half_even_def)
  have e55: "r_add double (Fin (6407899469808021 / 281474976710656)) (Fin (6122949493384887 / 562949953421312)) = Fin (591835888531279 / 17592186044416)"
    using double_eval [of "18938748433000929 / 562949953421312" 47] by (simp add: r_add_def rounded_def round_half_even_def)
  have e56: "r_add double (Fin (1494249876365211 / 281474976710656)) (Fin (591835888531279 / 17592186044416)) = Fin (2740906023216419 / 70368744177664)"
    using double_eval [of "10963624092865675 / 281474976710656" 47] by (simp add: r_add_def rounded_def round_half_even_def)
  have e57: "r_add double (Fin (2740906023216419 / 70368744177664)) (Fin (2724399774582151 / 4503599627370496)) = Fin (2783474769694265 / 70368744177664)"
    using double_eval [of "178142385260432967 / 4503599627370496" 47] by (simp add: r_add_def rounded_def round_half_even_def)
  have e58: "r_add double (Fin 0) (Fin (2783474769694265 / 70368744177664)) = Fin (2783474769694265 / 70368744177664)"
    using double_eval [of "2783474769694265 / 70368744177664" 47] by (simp add: r_add_def rounded_def round_half_even_def)
  have e59: "r_sqrt double (Fin (2783474769694265 / 70368744177664)) = Fin (7081145651825069 / 1125899906842624)"
    using double_sqrt_eval [of 7081145651825069 50 "2783474769694265 / 70368744177664"] by (simp add: r_sqrt_def rounded_def)
  have e60: "r_add double (Fin (6727599443355927 / 4503599627370496)) (Fin (4343749640596543 / 562949953421312)) = Fin (2592349785508017 / 281474976710656)"
    using double_eval [of "41477596568128271 / 4503599627370496" 49] by (simp add: r_add_def rounded_def round_half_even_def)
  have e61: "r_add double (Fin (6407899469808021 / 281474976710656)) (Fin (2592349785508017 / 281474976710656)) = Fin (4500124627658019 / 140737488355328)"
    using double_eval [of "4500124627658019 / 140737488355328" 48] by (simp add: r_add_def rounded_def round_half_even_def)
  have e62: "r_add double (Fin (2724399774582151 / 4503599627370496)) (Fin (222399981598543 / 70368744177664)) = Fin (2119749824611113 / 562949953421312)"
    using double_eval [of "16957998596888903 / 4503599627370496" 51] by (simp add: r_add_def rounded_def round_half_even_def)
  have e63: "r_add double (Fin (2724399774582151 / 4503599627370496)) (Fin (7116799411153383 / 144115188075855872)) = Fin (1473399878090347 / 2251799813685248)"
    using double_eval [of "94297592197782215 / 144115188075855872" 53] by (simp add: r_add_def rounded_def round_half_even_def)
  have e64: "r_add double (Fin (2119749824611113 / 562949953421312)) (Fin (1473399878090347 / 2251799813685248)) = Fin (622024948533425 / 140737488355328)"
    using double_eval [of "9952399176534799 / 2251799813685248" 50] by (simp add: r_add_def rounded_def round_half_even_def)
  have e65: "r_add double (Fin (4500124627658019 / 140737488355328)) (Fin (622024948533425 / 140737488355328)) = Fin (1280537394047861 / 35184372088832)"
    using double_eval [of "1280537394047861 / 35184372088832" 47] by (simp add: r_add_def rounded_def round_half_even_def)
  have e66: "r_add double (Fin (1280537394047861 / 35184372088832)) (Fin (222399981598543 / 70368744177664)) = Fin (2783474769694265 / 70368744177664)"
    using double_eval [of "2783474769694265 / 70368744177664" 47] by (simp add: r_add_def rounded_def round_half_even_def)
  have e67: "r_mul double (Fin (7081145651825069 / 1125899906842624)) (Fin (7081145651825069 / 1125899906842624)) = Fin (5566949539388531 / 140737488355328)"
    using double_eval [of "50142623742361081323930576854761 / 1267650600228229401496703205376" 47] by (simp add: r_mul_def rounded_def round_half_even_def)
  have e68: "r_div double (Fin (- (1227543648432583 / 70368744177664))) (Fin (5566949539388531 / 140737488355328)) = Fin (- (7944552151653569 / 18014398509481984))"
    using double_eval [of "- (2455087296865166 / 5566949539388531)" 54] by (simp add: r_div_def rounded_def round_half_even_def)
  have e69: "r_add double (Fin 0) (Fin 3) = Fin 3"
    using double_eval [of "3" 51] by (simp add: r_add_def rounded_def round_half_even_def)
  have e70: "r_add double (Fin 3) (Fin 3) = Fin 6"
    using double_eval [of "6" 50] by (simp add: r_add_def rounded_def round_half_even_def)
  have e71: "r_add double (Fin 7) (Fin 4) = Fin 11"
    using double_eval [of "11" 49] by (simp add: r_add_def rounded_def round_half_even_def)
  have e72: "r_add double (Fin 3) (Fin 11) = Fin 14"
    using double_eval [of "14" 49] by (simp add: r_add_def rounded_def round_half_even_def)
  have e73: "r_add double (Fin 6) (Fin 14) = Fin 20"
    using double_eval [of "20" 48] by (simp add: r_add_def rounded_def round_half_even_def)
  have e74: "r_add double (Fin 20) (Fin 5) = Fin 25"
    using double_eval [of "25" 48] by (simp add: r_add_def rounded_def round_half_even_def)
  have e75: "r_mul double (Fin (250199979298361 / 1125899906842624)) (Fin (- (3127499741229511 / 1125899906842624))) = Fin (- (2779999769981789 / 4503599627370496))"
    using double_eval [of "- (782500370511253036673247131471 / 1267650600228229401496703205376)" 53] by (simp add: r_mul_def rounded_def round_half_even_def)
  have e76: "r_mul double (Fin (1376099886140985 / 1125899906842624)) (Fin (250199979298361 / 1125899906842624)) = Fin (4892799595167949 / 18014398509481984)"
    using double_eval [of "344300163024951376168225425585 / 1267650600228229401496703205376" 54] by (simp add: r_mul_def rounded_def round_half_even_def)
  have e77: "r_mul double (Fin (2501999792983609 / 1125899906842624)) (Fin (- (2001599834386887 / 1125899906842624))) = Fin (- (1111999907992715 / 281474976710656))"
    using double_eval [of "- (5008002371272017333028955535183 / 1267650600228229401496703205376)" 51] by (simp add: r_mul_def rounded_def round_half_even_def)
  have e78: "r_mul double (Fin (4753799606668857 / 1125899906842624)) (Fin (- (875699927544263 / 1125899906842624))) = Fin (- (3697399694075777 / 1125899906842624))"
    using double_eval [of "- (4162901971119864023397851117391 / 1267650600228229401496703205376)" 51] by (simp add: r_mul_def rounded_def round_half_even_def)
  have e79: "r_mul double (Fin (- (2001599834386887 / 1125899906842624))) (Fin (4753799606668857 / 1125899906842624)) = Fin (- (4225599650372317 / 562949953421312))"
    using double_eval [of "- (9515204505416832732595032078159 / 1267650600228229401496703205376)" 50] by (simp add: r_mul_def rounded_def round_half_even_def)
  have e80: "r_mul double (Fin (- (3127499741229511 / 1125899906842624))) (Fin (1376099886140985 / 1125899906842624)) = Fin (- (1911249841862479 / 562949953421312))"
    using double_eval [of "- (4303752037811890137952988608335 / 1267650600228229401496703205376)" 51] by (simp add: r_mul_def rounded_def round_half_even_def)
  have e81: "r_mul double (Fin (- (875699927544263 / 1125899906842624))) (Fin (2501999792983609 / 1125899906842624)) = Fin (- (7783999355949005 / 4503599627370496))"
    using double_eval [of "- (2191001037431507426825180985167 / 1267650600228229401496703205376)" 52] by (simp add: r_mul_def rounded_def round_half_even_def)
  have e82: "r_add double (Fin (6227199484759203 / 4503599627370496)) (Fin (6227199484759203 / 4503599627370496)) = Fin (6227199484759203 / 2251799813685248)"
    using double_eval [of "6227199484759203 / 2251799813685248" 51] by (simp add: r_add_def rounded_def round_half_even_def)
  have e83: "r_add double (Fin (- (2779999769981789 / 4503599627370496))) (Fin (4892799595167949 / 18014398509481984)) = Fin (- (6227199484759207 / 18014398509481984))"
    using double_eval [of "- (6227199484759207 / 18014398509481984)" 54] by (simp add: r_add_def rounded_def round_half_even_def)
  have e84: "r_add double (Fin (6227199484759203 / 2251799813685248)) (Fin (- (6227199484759207 / 18014398509481984))) = Fin (2724399774582151 / 1125899906842624)"
    using double_eval [of "43590396393314417 / 18014398509481984" 51] by (simp add: r_add_def rounded_def round_half_even_def)
  have e85: "r_add double (Fin (- (4225599650372317 / 562949953421312))) (Fin (- (1911249841862479 / 562949953421312))) = Fin (- (1534212373058699 / 140737488355328))"
    using double_eval [of "- (1534212373058699 / 140737488355328)" 49] by (simp add: r_add_def rounded_def round_half_even_def)
  have e86: "r_add double (Fin (- (8145399326046637 / 1125899906842624))) (Fin (- (1534212373058699 / 140737488355328))) = Fin (- (5104774577629057 / 281474976710656))"
    using double_eval [of "- (20419098310516229 / 1125899906842624)" 48] by (simp add: r_add_def rounded_def round_half_even_def)
  have e87: "r_add double (Fin (2724399774582151 / 1125899906842624)) (Fin (- (5104774577629057 / 281474976710656))) = Fin (- (4423674633983519 / 281474976710656))"
    using double_eval [of "- (17694698535934077 / 1125899906842624)" 49] by (simp add: r_add_def rounded_def round_half_even_def)
  have e88: "r_add double (Fin (- (4423674633983519 / 281474976710656))) (Fin (- (7783999355949005 / 4503599627370496))) = Fin (- (1227543648432583 / 70368744177664))"
    using double_eval [of "- (78562793499685309 / 4503599627370496)" 48] by (simp add: r_add_def rounded_def round_half_even_def)
  have e89: "r_add double (Fin (4343749640596543 / 562949953421312)) (Fin (7116799411153383 / 144115188075855872)) = Fin (4371549638296361 / 562949953421312)"
    using double_eval [of "1119116707403868391 / 144115188075855872" 50] by (simp add: r_add_def rounded_def round_half_even_def)
  have e90: "r_add double (Fin (2119749824611113 / 562949953421312)) (Fin (4371549638296361 / 562949953421312)) = Fin (3245649731453737 / 281474976710656)"
    using double_eval [of "3245649731453737 / 281474976710656" 49] by (simp add: r_add_def rounded_def round_half_even_def)
  have e91: "r_add double (Fin (5017899584817127 / 281474976710656)) (Fin (6727599443355927 / 4503599627370496)) = Fin (679796818753359 / 35184372088832)"
    using double_eval [of "87013992800429959 / 4503599627370496" 48] by (simp add: r_add_def rounded_def round_half_even_def)
  have e92: "r_add double (Fin (2119749824611113 / 562949953421312)) (Fin (679796818753359 / 35184372088832)) = Fin (1624562365583107 / 70368744177664)"
    using double_eval [of "12996498924664857 / 562949953421312" 48] by (simp add: r_add_def rounded_def round_half_even_def)
  have e93: "r_add double (Fin (3245649731453737 / 281474976710656)) (Fin (1624562365583107 / 70368744177664)) = Fin (2435974798446541 / 70368744177664)"
    using double_eval [of "9743899193786165 / 281474976710656" 47] by (simp add: r_add_def rounded_def round_half_even_def)
  have e94: "r_add double (Fin (2435974798446541 / 70368744177664)) (Fin (694999942495447 / 140737488355328)) = Fin (5566949539388529 / 140737488355328)"
    using double_eval [of "5566949539388529 / 140737488355328" 47] by (simp add: r_add_def rounded_def round_half_even_def)
  have e95: "r_add double (Fin 0) (Fin (5566949539388529 / 140737488355328)) = Fin (5566949539388529 / 140737488355328)"
    using double_eval [of "5566949539388529 / 140737488355328" 47] by (simp add: r_add_def rounded_def round_half_even_def)
  have e96: "r_sqrt double (Fin (5566949539388529 / 140737488355328)) = Fin (1770286412956267 / 281474976710656)"
    using double_sqrt_eval [of 7081145651825068 50 "5566949539388529 / 140737488355328"] by (simp add: r_sqrt_def rounded_def)
  have e97: "r_mul double (Fin (7081145651825069 / 1125899906842624)) (Fin (1770286412956267 / 281474976710656)) = Fin (2783474769694265 / 70368744177664)"
    using double_eval [of "12535655935590268560696231257423 / 316912650057057350374175801344" 47] by (simp add: r_mul_def rounded_def round_half_even_def)
  have e98: "r_div double (Fin (- (1227543648432583 / 70368744177664))) (Fin (2783474769694265 / 70368744177664)) = Fin (- (7944552151653571 / 18014398509481984))"
    using double_eval [of "- (1227543648432583 / 2783474769694265)" 54] by (simp add: r_div_def rounded_def round_half_even_def)
  note ev = e1 e2 e3 e4 e5 e6 e7 e8 e9 e10 e11 e12 e13 e14 e15 e16 e17 e18 e19 e20 e21 e22 e23 e24 e25 e26 e27 e28 e29 e30 e31 e32 e33 e34 e35 e36 e37 e38 e39 e40 e41 e42 e43 e44 e45 e46 e47 e48 e49 e50 e51 e52 e53 e54 e55 e56 e57 e58 e59 e60 e61 e62 e63 e64 e65 e66 e67 e68 e69 e70 e71 e72 e73 e74 e75 e76 e77 e78 e79 e80 e81 e82 e83 e84 e85 e86 e87 e88 e89 e90 e91 e92 e93 e94 e95 e96 e97 e98
  have len9: "real (length [1, 2, 3, 4, 5, 7, 1, 0, 2]) = 9" "real (length [5, 7, 4, 0, 2, 1, 2, 3, 1]) = 9"
      "real (length [2, 1, 0, 3, 1, 2, 7, 4, 5]) = 9"
    by simp_all
  have ca: "corr double [1, 2, 3, 4, 5, 7, 1, 0, 2] [5, 7, 4, 0, 2, 1, 2, 3, 1] = Fin (- (7944552151653569 / 18014398509481984))"
    by (simp only: corr_def Let_def r_mean_def r_sum_def list.map zip_Cons_Cons zip_Nil
          prod.case pairwise_sum_9 ev len9)
  have cb: "corr double [1, 2, 3, 4, 5, 7, 1, 0, 2] [2, 1, 0, 3, 1, 2, 7, 4, 5] = Fin (- (7944552151653571 / 18014398509481984))"
    by (simp only: corr_def Let_def r_mean_def r_sum_def list.map zip_Cons_Cons zip_Nil
          prod.case pairwise_sum_9 ev len9)
  have a: "heatmap_at (projr (spatial_correlation_heatmap double ?img 1)) (1 + - 1) (1 + - 1) = Fin (- (7944552151653569 / 18014398509481984))"
    by (subst heatmap_entry_projr) (simp_all add: heat_value_def flatten_def [of ?img] ra ca)
  have b: "heatmap_at (projr (spatial_correlation_heatmap double ?img 1)) (1 + 1) (1 + 1) = Fin (- (7944552151653571 / 18014398509481984))"
    by (subst heatmap_entry_projr) (simp_all add: heat_value_def flatten_def [of ?img] rb cb)
  have n: "\<not> isl (spatial_correlation_heatmap double ?img 1)"
    by (rule heatmap_not_error) simp
  let ?c = "\<lparr>rows = 2, cols = 2, pixels = [1, 1, 1, 1]\<rparr>"
  have rc: "flatten (np_roll ?c (- 1) (- 1)) = [1, 1, 1, 1]" "flatten (np_roll ?c 1 1) = [1, 1, 1, 1]"
    by (simp_all add: flatten_def np_roll_def upt4)
  have z1: "r_add double (Fin 0) (Fin 1) = Fin 1"
    using double_eval [of "1" 52] by (simp add: r_add_def rounded_def round_half_even_def)
  have z2: "r_add double (Fin 1) (Fin 1) = Fin 2"
    using double_eval [of "2" 51] by (simp add: r_add_def rounded_def round_half_even_def)
  have z3: "r_add double (Fin 2) (Fin 1) = Fin 3"
    using double_eval [of "3" 51] by (simp add: r_add_def rounded_def round_half_even_def)
  have z4: "r_add double (Fin 3) (Fin 1) = Fin 4"
    using double_eval [of "4" 50] by (simp add: r_add_def rounded_def round_half_even_def)
  have z5: "r_add double (Fin 0) (Fin 4) = Fin 4"
    using double_eval [of "4" 50] by (simp add: r_add_def rounded_def round_half_even_def)
  have z6: "r_div double (Fin 4) (Fin 4) = Fin 1"
    using double_eval [of "1" 52] by (simp add: r_div_def rounded_def round_half_even_def)
  have z7: "r_sub double (Fin 1) (Fin 1) = Fin 0"
    by (simp add: r_sub_def rounded_def double_def pf_sub_def)
  have z8: "r_mul double (Fin 0) (Fin 0) = Fin 0"
    by (simp add: r_mul_def rounded_def double_def)
  have z9: "r_add double (Fin 0) (Fin 0) = Fin 0"
    by (simp add: r_add_def rounded_def double_def)
  have z10: "r_sqrt double (Fin 0) = Fin 0"
    by (simp add: r_sqrt_def rounded_def double_def)
  have z11: "r_div double (Fin 0) (Fin 0) = NaN"
    by (simp add: r_div_def rounded_def)
  note cev = z1 z2 z3 z4 z5 z6 z7 z8 z9 z10 z11
  have len4: "real (length [1, 1, 1, 1]) = 4"
    by simp
  have cc: "corr double [1, 1, 1, 1] [1, 1, 1, 1] = NaN"
    by (simp only: corr_def Let_def r_mean_def r_sum_def list.map zip_Cons_Cons zip_Nil
          prod.case pairwise_sum_4 cev len4)
  have c: "heatmap_at (projr (spatial_correlation_heatmap double ?c 1)) (1 + - 1) (1 + - 1) = NaN"
    by (subst heatmap_entry_projr) (simp_all add: heat_value_def flatten_def [of ?c] rc cc)
  have d: "heatmap_at (projr (spatial_correlation_heatmap double ?c 1)) (1 + 1) (1 + 1) = NaN"
    by (subst heatmap_entry_projr) (simp_all add: heat_value_def flatten_def [of ?c] rc cc)
  have nc: "\<not> isl (spatial_correlation_heatmap double ?c 1)"
    by (rule heatmap_not_error) simp
  show ?thesis
    using a b n c d nc by simp
qed

text \<open>
  Claim C10. For a 2-D image that is not constant and \<open>max_distance \<ge> 1\<close>, the array
  returned by \<open>spatial_correlation_heatmap\<close> has \<open>(2 * max_distance + 1)\<^sup>2\<close> entries and its
  centre is 1, whatever the rounding of the arithmetic. In exact arithmetic every entry
  is a finite number between -1 and 1: every entry other than the centre is bounded by
  the Cauchy-Schwarz inequality. In double precision an entry can leave the interval by
  rounding: see the theorem after the next.
\<close>

theorem heatmap_entries_in_range_exact:
  assumes wf: "wf_image img" and nc: "\<not> is_constant (pixels img)" and m: "1 \<le> m"
  shows "(\<exists>H. spatial_correlation_heatmap rnd img m = Inr H
              \<and> length (data H) = nat (2 * m + 1) * nat (2 * m + 1)
              \<and> heatmap_at H m m = Fin 1)
       \<and> (\<exists>H. spatial_correlation_heatmap Fin img m = Inr H
              \<and> length (data H) = nat (2 * m + 1) * nat (2 * m + 1)
              \<and> (\<forall>e\<in>set (data H). \<exists>v. e = Fin v \<and> - 1 \<le> v \<and> v \<le> 1))"
proof
  have m0: "0 \<le> m" using m by simp
  obtain H where H: "spatial_correlation_heatmap rnd img m = Inr H"
    using heatmap_returns [OF m0] by blast
  have "heatmap_at H (m + 0) (m + 0) = heat_value rnd img 0 0"
    using m0 by (intro heatmap_entry [OF _ _ _ _ _ H]) simp_all
  then have centre: "heatmap_at H m m = Fin 1"
    by (simp add: heat_value_def)
  show "\<exists>H. spatial_correlation_heatmap rnd img m = Inr H
              \<and> length (data H) = nat (2 * m + 1) * nat (2 * m + 1)
              \<and> heatmap_at H m m = Fin 1"
    using H heatmap_shape(2) [OF m0 H] centre by blast
next
  let ?s = "nat (2 * m + 1)"
  have m0: "0 \<le> m" using m by simp
  have spos: "0 < ?s" using m0 by simp
  obtain H where H: "spatial_correlation_heatmap Fin img m = Inr H"
    using heatmap_returns [OF m0] by blast
  have len: "length (data H) = ?s * ?s" and sh: "shape H = [?s, ?s]"
    using heatmap_shape [OF m0 H] by simp_all
  have "\<exists>v. e = Fin v \<and> - 1 \<le> v \<and> v \<le> 1" if e: "e \<in> set (data H)" for e
  proof -
    from e obtain p where p: "p < ?s * ?s" and ep: "e = data H ! p"
      unfolding len [symmetric] by (auto simp: in_set_conv_nth)
    define dx where "dx = int (p div ?s) - m"
    define dy where "dy = int (p mod ?s) - m"
    have pd: "p div ?s < ?s" using p by (simp add: less_mult_imp_div_less)
    have pm: "p mod ?s < ?s" using spos by simp
    have r: "- m \<le> dx" "dx \<le> m" "- m \<le> dy" "dy \<le> m"
      using pd pm m0 unfolding dx_def dy_def by linarith+
    have "heatmap_at H (m + dx) (m + dy) = heat_value Fin img dx dy"
      using m0 r H by (rule heatmap_entry)
    moreover have "heatmap_at H (m + dx) (m + dy) = data H ! p"
      by (simp add: heatmap_at_def sh dx_def dy_def)
    ultimately have "e = heat_value Fin img dx dy" using ep by simp
    then show ?thesis using heat_value_range [OF wf nc, of dx dy] by simp
  qed
  then show "\<exists>H. spatial_correlation_heatmap Fin img m = Inr H
              \<and> length (data H) = nat (2 * m + 1) * nat (2 * m + 1)
              \<and> (\<forall>e\<in>set (data H). \<exists>v. e = Fin v \<and> - 1 \<le> v \<and> v \<le> 1)"
    using H len by blast
qed

theorem heatmap_entries_in_range_exact_witness:
  "(\<exists>H. spatial_correlation_heatmap double \<lparr>rows = 2, cols = 2, pixels = [0, 0, 0, 1]\<rparr> 2 = Inr H
        \<and> length (data H) = 25
        \<and> heatmap_at H 2 2 = Fin 1)
   \<and> (\<exists>H. spatial_correlation_heatmap Fin \<lparr>rows = 2, cols = 2, pixels = [0, 0, 0, 1]\<rparr> 2 = Inr H
        \<and> length (data H) = 25
        \<and> (\<forall>e\<in>set (data H). \<exists>v. e = Fin v \<and> - 1 \<le> v \<and> v \<le> 1))"
  using heatmap_entries_in_range_exact
          [of "\<lparr>rows = 2, cols = 2, pixels = [0, 0, 0, 1]\<rparr>" 2 double]
  by (simp add: wf_image_def is_constant_def)

text \<open>
  The bound fails in double precision. For the image \<open>[[0, 0], [0, 1]]\<close> and
  \<open>max_distance = 2\<close> the offset \<open>(-2, -2)\<close> rolls the image onto itself, and the entry is
  \<open>0.75 / (sqrt 0.75 * sqrt 0.75)\<close>, which in double precision is
  \<open>1.0000000000000002 = 1 + 2 powr - 52\<close>.
\<close>

theorem heatmap_range_counterexample:
  "\<not> is_constant (pixels \<lparr>rows = 2, cols = 2, pixels = [0, 0, 0, 1]\<rparr>)
   \<and> \<not> isl (spatial_correlation_heatmap double \<lparr>rows = 2, cols = 2, pixels = [0, 0, 0, 1]\<rparr> 2)
   \<and> heatmap_at (projr (spatial_correlation_heatmap double \<lparr>rows = 2, cols = 2, pixels = [0, 0, 0, 1]\<rparr> 2)) 0 0 = Fin (4503599627370497 / 4503599627370496)
   \<and> pf_less (Fin 1) (heatmap_at (projr (spatial_correlation_heatmap double \<lparr>rows = 2, cols = 2, pixels = [0, 0, 0, 1]\<rparr> 2)) 0 0)"
proof -
  let ?img = "\<lparr>rows = 2, cols = 2, pixels = [0, 0, 0, 1]\<rparr>"
  have r: "flatten (np_roll ?img (- 2) (- 2)) = [0, 0, 0, 1]"
    by (simp add: flatten_def np_roll_def upt4)
  have e1: "r_add double (Fin 0) (Fin 0) = Fin 0"
    by (simp add: r_add_def rounded_def double_def)
  have e2: "r_add double (Fin 0) (Fin 1) = Fin 1"
    using double_eval [of "1" 52] by (simp add: r_add_def rounded_def round_half_even_def)
  have e3: "r_div double (Fin 1) (Fin 4) = Fin (1 / 4)"
    using double_eval [of "1 / 4" 54] by (simp add: r_div_def rounded_def round_half_even_def)
  have e4: "r_sub double (Fin 0) (Fin (1 / 4)) = Fin (- (1 / 4))"
    using double_eval [of "- (1 / 4)" 54] by (simp add: r_sub_def rounded_def round_half_even_def pf_sub_def)
  have e5: "r_sub double (Fin 1) (Fin (1 / 4)) = Fin (3 / 4)"
    using double_eval [of "3 / 4" 53] by (simp add: r_sub_def rounded_def round_half_even_def pf_sub_def)
  have e6: "r_mul double (Fin (- (1 / 4))) (Fin (- (1 / 4))) = Fin (1 / 16)"
    using double_eval [of "1 / 16" 56] by (simp add: r_mul_def rounded_def round_half_even_def)
  have e7: "r_mul double (Fin (3 / 4)) (Fin (3 / 4)) = Fin (9 / 16)"
    using double_eval [of "9 / 16" 53] by (simp add: r_mul_def rounded_def round_half_even_def)
  have e8: "r_add double (Fin 0) (Fin (1 / 16)) = Fin (1 / 16)"
    using double_eval [of "1 / 16" 56] by (simp add: r_add_def rounded_def round_half_even_def)
  have e9: "r_add double (Fin (1 / 16)) (Fin (1 / 16)) = Fin (1 / 8)"
    using double_eval [of "1 / 8" 55] by (simp add: r_add_def rounded_def round_half_even_def)
  have e10: "r_add double (Fin (1 / 8)) (Fin (1 / 16)) = Fin (3 / 16)"
    using double_eval [of "3 / 16" 55] by (simp add: r_add_def rounded_def round_half_even_def)
  have e11: "r_add double (Fin (3 / 16)) (Fin (9 / 16)) = Fin (3 / 4)"
    using double_eval [of "3 / 4" 53] by (simp add: r_add_def rounded_def round_half_even_def)
  have e12: "r_add double (Fin 0) (Fin (3 / 4)) = Fin (3 / 4)"
    using double_eval [of "3 / 4" 53] by (simp add: r_add_def rounded_def round_half_even_def)
  have e13: "r_sqrt double (Fin (3 / 4)) = Fin (3900231685776981 / 4503599627370496)"
    using double_sqrt_eval [of 7800463371553962 53 "3 / 4"] by (simp add: r_sqrt_def rounded_def)
  have e14: "r_mul double (Fin (3900231685776981 / 4503599627370496)) (Fin (3900231685776981 / 4503599627370496)) = Fin (6755399441055743 / 9007199254740992)"
    using double_eval [of "15211807202738751055289669474361 / 20282409603651670423947251286016" 53] by (simp add: r_mul_def rounded_def round_half_even_def)
  have e15: "r_div double (Fin (3 / 4)) (Fin (6755399441055743 / 9007199254740992)) = Fin (4503599627370497 / 4503599627370496)"
    using double_eval [of "6755399441055744 / 6755399441055743" 52] by (simp add: r_div_def rounded_def round_half_even_def)
  note ev = e1 e2 e3 e4 e5 e6 e7 e8 e9 e10 e11 e12 e13 e14 e15
  have len4: "real (length [0, 0, 0, 1]) = 4"
    by simp
  have c: "corr double [0, 0, 0, 1] [0, 0, 0, 1] = Fin (4503599627370497 / 4503599627370496)"
    by (simp only: corr_def Let_def r_mean_def r_sum_def list.map zip_Cons_Cons zip_Nil
          prod.case pairwise_sum_4 ev len4)
  have a: "heatmap_at (projr (spatial_correlation_heatmap double ?img 2)) (2 + - 2) (2 + - 2) = Fin (4503599627370497 / 4503599627370496)"
    by (subst heatmap_entry_projr) (simp_all add: heat_value_def flatten_def [of ?img] r c)
  have n: "\<not> isl (spatial_correlation_heatmap double ?img 2)"
    by (rule heatmap_not_error) simp
  have k: "\<not> is_constant (pixels ?img)"
    by (simp add: is_constant_def)
  show ?thesis
    using a n k by simp
qed

section \<open>Properties of the SSIM of an image with itself\<close>

lemma borderInterpolate_inside: "0 \<le> p \<Longrightarrow> p < len \<Longrightarrow> borderInterpolate p len = p"
  by (subst borderInterpolate.simps) simp

lemma gaussian_total_pos: "0 < sum_list (map (gaussian_weight 11 (3 / 2)) [0..<11])"
proof -
  have "0 < gaussian_weight 11 (3 / 2) i" for i
    by (simp add: gaussian_weight_def)
  moreover have "(0::nat) \<in> {..<11}" by simp
  then have "{..<11::nat} \<noteq> {}" by blast
  ultimately have "0 < (\<Sum>i<11::nat. gaussian_weight 11 (3 / 2) i)"
    by (intro sum_pos) simp_all
  then show ?thesis
    by (simp add: interv_sum_list_conv_sum_set_nat atLeast0LessThan)
qed

lemma window_weight_eq:
  "a < 11 \<Longrightarrow> window_weight a
     = gaussian_weight 11 (3 / 2) a / sum_list (map (gaussian_weight 11 (3 / 2)) [0..<11])"
  by (simp add: window_weight_def getGaussianKernel_def)

lemma window_weight_nonneg: "a < 11 \<Longrightarrow> 0 \<le> window_weight a"
  using gaussian_total_pos
  by (simp add: window_weight_eq gaussian_weight_def)

lemma window_weight_sum: "(\<Sum>a<11. window_weight a) = 1"
proof -
  let ?S = "sum_list (map (gaussian_weight 11 (3 / 2)) [0..<11])"
  have "(\<Sum>a<11. window_weight a) = (\<Sum>a<11. gaussian_weight 11 (3 / 2) a / ?S)"
    by (intro sum.cong) (simp_all add: window_weight_eq)
  also have "\<dots> = (\<Sum>a<11. gaussian_weight 11 (3 / 2) a) / ?S"
    by (simp add: sum_divide_distrib)
  also have "(\<Sum>a<11. gaussian_weight 11 (3 / 2) a) = ?S"
    by (simp add: interv_sum_list_conv_sum_set_nat atLeast0LessThan)
  finally show ?thesis using gaussian_total_pos by simp
qed

lemma window_weight_sum2: "(\<Sum>a<11. \<Sum>b<11. window_weight a * window_weight b) = 1"
proof -
  have "(\<Sum>a<11. \<Sum>b<11. window_weight a * window_weight b)
          = (\<Sum>a<11. window_weight a) * (\<Sum>b<11. window_weight b)"
    by (simp add: sum_product)
  then show ?thesis by (simp add: window_weight_sum)
qed

lemma weighted_square_mean:
  fixes v :: "nat \<Rightarrow> nat \<Rightarrow> real"
  shows "(\<Sum>a<11. \<Sum>b<11. window_weight a * window_weight b * v a b)\<^sup>2
           \<le> (\<Sum>a<11. \<Sum>b<11. window_weight a * window_weight b * (v a b)\<^sup>2)"
proof -
  let ?I = "{..<11::nat} \<times> {..<11::nat}"
  let ?om = "\<lambda>p. window_weight (fst p) * window_weight (snd p)"
  have nn: "0 \<le> ?om p" if "p \<in> ?I" for p
    using that by (auto intro!: mult_nonneg_nonneg window_weight_nonneg)
  have cs: "(\<Sum>p\<in>?I. sqrt (?om p) * (sqrt (?om p) * v (fst p) (snd p)))\<^sup>2
          \<le> (\<Sum>p\<in>?I. (sqrt (?om p))\<^sup>2) * (\<Sum>p\<in>?I. (sqrt (?om p) * v (fst p) (snd p))\<^sup>2)"
    by (rule cauchy_schwarz_sum) simp
  have a: "(\<Sum>p\<in>?I. sqrt (?om p) * (sqrt (?om p) * v (fst p) (snd p)))
             = (\<Sum>p\<in>?I. ?om p * v (fst p) (snd p))"
  proof (rule sum.cong)
    fix p assume "p \<in> ?I"
    then have "sqrt (?om p) * sqrt (?om p) = ?om p" using nn by simp
    then show "sqrt (?om p) * (sqrt (?om p) * v (fst p) (snd p)) = ?om p * v (fst p) (snd p)"
      by (simp add: mult.assoc [symmetric])
  qed simp
  have b: "(\<Sum>p\<in>?I. (sqrt (?om p))\<^sup>2) = (\<Sum>p\<in>?I. ?om p)"
    by (rule sum.cong) (simp_all add: nn)
  have c: "(\<Sum>p\<in>?I. (sqrt (?om p) * v (fst p) (snd p))\<^sup>2)
             = (\<Sum>p\<in>?I. ?om p * (v (fst p) (snd p))\<^sup>2)"
    by (rule sum.cong) (simp_all add: nn power_mult_distrib)
  have one: "(\<Sum>p\<in>?I. ?om p) = 1"
    using window_weight_sum2 by (simp add: sum.cartesian_product case_prod_unfold)
  from cs have "(\<Sum>p\<in>?I. ?om p * v (fst p) (snd p))\<^sup>2
                  \<le> (\<Sum>p\<in>?I. ?om p * (v (fst p) (snd p))\<^sup>2)"
    unfolding a b c one by simp
  then show ?thesis
    by (simp add: sum.cartesian_product case_prod_unfold)
qed

end
